theory Spec2Isabelle
  imports Complex_Main
begin

section \<open>Configuration\<close>

text \<open>
  The module-level constants of \<^verbatim>\<open>itrik_Surfers.py\<close>. Python's unbounded integers are
  \<^typ>\<open>int\<close>. Python's floats are idealised as \<^typ>\<open>real\<close>: the properties below depend on
  the order of the values and on the control flow, not on how a sum is rounded.
\<close>

definition WIDTH :: int where "WIDTH = 900"
definition HEIGHT :: int where "HEIGHT = 500"
definition FPS :: int where "FPS = 60"
definition GROUND_Y :: int where "GROUND_Y = HEIGHT - 90"
definition PLAYER_X :: int where "PLAYER_X = 120"

text \<open>Python's \<^verbatim>\<open>int(f)\<close> on a float: truncation towards zero.\<close>

definition int_trunc :: "real \<Rightarrow> int" where
  "int_trunc r = (if 0 \<le> r then \<lfloor>r\<rfloor> else \<lceil>r\<rceil>)"

section \<open>Rectangles\<close>

text \<open>
  \<^verbatim>\<open>pygame.Rect\<close>: integer position and size. \<^verbatim>\<open>right\<close> is \<^verbatim>\<open>x + w\<close>; assigning
  \<^verbatim>\<open>topleft\<close> moves the rectangle; \<^verbatim>\<open>colliderect\<close> is strict overlap of the two extents,
  and a rectangle of width or height zero collides with nothing.
\<close>

record Rect =
  rect_x :: int
  rect_y :: int
  rect_w :: int
  rect_h :: int

definition Rect_init :: "int \<Rightarrow> int \<Rightarrow> int \<Rightarrow> int \<Rightarrow> Rect" where
  "Rect_init a b c d = \<lparr>rect_x = a, rect_y = b, rect_w = c, rect_h = d\<rparr>"

definition rect_right :: "Rect \<Rightarrow> int" where
  "rect_right r = rect_x r + rect_w r"

definition set_topleft :: "Rect \<Rightarrow> int \<Rightarrow> int \<Rightarrow> Rect" where
  "set_topleft r a b = r\<lparr>rect_x := a, rect_y := b\<rparr>"

definition colliderect :: "Rect \<Rightarrow> Rect \<Rightarrow> bool" where
  "colliderect a b =
     (rect_w a \<noteq> 0 \<and> rect_h a \<noteq> 0 \<and> rect_w b \<noteq> 0 \<and> rect_h b \<noteq> 0 \<and>
      min (rect_x a) (rect_x a + rect_w a) < max (rect_x b) (rect_x b + rect_w b) \<and>
      min (rect_y a) (rect_y a + rect_h a) < max (rect_y b) (rect_y b + rect_h b) \<and>
      max (rect_x a) (rect_x a + rect_w a) > min (rect_x b) (rect_x b + rect_w b) \<and>
      max (rect_y a) (rect_y a + rect_h a) > min (rect_y b) (rect_y b + rect_h b))"

section \<open>Player\<close>

text \<open>
  The attributes of \<^verbatim>\<open>class Player\<close>, without the colour (it is only drawn). The
  fields carry the prefix \<open>p_\<close>.
\<close>

record Player =
  p_width :: int
  p_height :: int
  p_x :: int
  p_y :: real
  p_dy :: real
  p_gravity :: real
  p_jump_strength :: int
  p_double_jump_allowed :: bool
  p_on_ground :: bool
  p_rect :: Rect
  p_shield :: int

definition Player_init :: Player where
  "Player_init =
     \<lparr>p_width = 48, p_height = 64, p_x = PLAYER_X, p_y = of_int (GROUND_Y - 64),
      p_dy = 0, p_gravity = 9 / 10, p_jump_strength = - 16,
      p_double_jump_allowed = True, p_on_ground = True,
      p_rect = Rect_init PLAYER_X (GROUND_Y - 64) 48 64, p_shield = 0\<rparr>"

text \<open>
  \<^verbatim>\<open>Player.update\<close>: gravity, the move, the clamp at the ground, the bounding box from
  the truncated position, and the shield countdown.
\<close>

definition Player_update :: "Player \<Rightarrow> Player" where
  "Player_update p =
     (let dy1 = p_dy p + p_gravity p;
          y1 = p_y p + dy1;
          p1 = (if of_int (GROUND_Y - p_height p) \<le> y1
                then p\<lparr>p_y := of_int (GROUND_Y - p_height p), p_dy := 0,
                       p_on_ground := True, p_double_jump_allowed := True\<rparr>
                else p\<lparr>p_y := y1, p_dy := dy1, p_on_ground := False\<rparr>);
          p2 = p1\<lparr>p_rect := set_topleft (p_rect p1) (p_x p1) (int_trunc (p_y p1))\<rparr>
      in if 0 < p_shield p2 then p2\<lparr>p_shield := p_shield p2 - 1\<rparr> else p2)"

text \<open>\<^verbatim>\<open>Player.jump\<close>: the jump from the ground, the double jump, and nothing otherwise.\<close>

definition Player_jump :: "Player \<Rightarrow> Player" where
  "Player_jump p =
     (if p_on_ground p
      then p\<lparr>p_dy := of_int (p_jump_strength p), p_on_ground := False,
             p_double_jump_allowed := True\<rparr>
      else if p_double_jump_allowed p
      then p\<lparr>p_dy := of_int (p_jump_strength p) * (9 / 10),
             p_double_jump_allowed := False\<rparr>
      else p)"

section \<open>Obstacles, coins and power-ups\<close>

record Obstacle =
  ob_rect :: Rect
  ob_speed :: real
  ob_passed :: bool

definition Obstacle_init :: "int \<Rightarrow> int \<Rightarrow> int \<Rightarrow> real \<Rightarrow> Obstacle" where
  "Obstacle_init a wd ht s =
     \<lparr>ob_rect = Rect_init a (GROUND_Y - ht) wd ht, ob_speed = s, ob_passed = False\<rparr>"

definition Obstacle_update :: "Obstacle \<Rightarrow> Obstacle" where
  "Obstacle_update ob =
     ob\<lparr>ob_rect := (ob_rect ob)\<lparr>rect_x := rect_x (ob_rect ob) - int_trunc (ob_speed ob)\<rparr>\<rparr>"

record Coin =
  c_r :: int
  c_x :: int
  c_y :: int
  c_speed :: real
  c_rect :: Rect
  c_collected :: bool

definition Coin_init :: "int \<Rightarrow> int \<Rightarrow> real \<Rightarrow> Coin" where
  "Coin_init a b s =
     \<lparr>c_r = 10, c_x = a, c_y = b, c_speed = s,
      c_rect = Rect_init (a - 10) (b - 10) (10 * 2) (10 * 2), c_collected = False\<rparr>"

definition Coin_update :: "Coin \<Rightarrow> Coin" where
  "Coin_update c =
     (let x1 = c_x c - int_trunc (c_speed c)
      in c\<lparr>c_x := x1, c_rect := set_topleft (c_rect c) (x1 - c_r c) (c_y c - c_r c)\<rparr>)"

record PowerUp =
  pu_x :: int
  pu_y :: int
  pu_speed :: real
  pu_r :: int
  pu_kind :: string
  pu_rect :: Rect

definition PowerUp_init :: "int \<Rightarrow> int \<Rightarrow> real \<Rightarrow> string \<Rightarrow> PowerUp" where
  "PowerUp_init a b s k =
     \<lparr>pu_x = a, pu_y = b, pu_speed = s, pu_r = 14, pu_kind = k,
      pu_rect = Rect_init (a - 14) (b - 14) (14 * 2) (14 * 2)\<rparr>"

definition PowerUp_update :: "PowerUp \<Rightarrow> PowerUp" where
  "PowerUp_update pu =
     (let x1 = pu_x pu - int_trunc (pu_speed pu)
      in pu\<lparr>pu_x := x1, pu_rect := set_topleft (pu_rect pu) (x1 - pu_r pu) (pu_y pu - pu_r pu)\<rparr>)"

section \<open>Background\<close>

text \<open>A parallax layer: the offset, the speed factor and the vertical place.\<close>

record Layer =
  l_x :: int
  l_speed :: real
  l_y :: int

definition Background_init :: "Layer list" where
  "Background_init =
     map (\<lambda>i. \<lparr>l_x = 0, l_speed = 6 / 10 + of_int i * (4 / 10), l_y = i * (HEIGHT div 6)\<rparr>)
       [0, 1, 2]"

definition Layer_update :: "real \<Rightarrow> Layer \<Rightarrow> Layer" where
  "Layer_update base_speed l =
     (let x1 = l_x l - int_trunc (base_speed * l_speed l)
      in if x1 \<le> - WIDTH then l\<lparr>l_x := 0\<rparr> else l\<lparr>l_x := x1\<rparr>)"

definition Background_update :: "real \<Rightarrow> Layer list \<Rightarrow> Layer list" where
  "Background_update base_speed ls = map (Layer_update base_speed) ls"

section \<open>The high score file\<close>

text \<open>
  The file \<^verbatim>\<open>highscore.txt\<close> as the program sees it: its text, or \<open>None\<close> when opening
  or reading it raises; whether opening it for writing succeeds; and the texts written
  so far. The built-ins \<^verbatim>\<open>str.strip\<close>, \<^verbatim>\<open>int\<close> on a string (\<open>None\<close> where it raises
  \<^verbatim>\<open>ValueError\<close>) and \<^verbatim>\<open>str\<close> on an integer are parameters of the model.
\<close>

record hs_file =
  content :: "string option"
  writable :: bool
  writes :: "string list"

record py =
  py_strip :: "string \<Rightarrow> string"
  py_int :: "string \<Rightarrow> int option"
  py_str :: "int \<Rightarrow> string"

text \<open>
  \<^verbatim>\<open>load_highscore\<close>: every exception ends in the \<^verbatim>\<open>except\<close> branch, which returns 0; an
  empty stripped text is falsy, so \<^verbatim>\<open>or 0\<close> makes it \<^verbatim>\<open>int(0)\<close>.
\<close>

definition load_highscore :: "py \<Rightarrow> hs_file \<Rightarrow> int" where
  "load_highscore B f =
     (case content f of
        None \<Rightarrow> 0
      | Some txt \<Rightarrow>
          (let s = py_strip B txt
           in if s = [] then 0
              else (case py_int B s of None \<Rightarrow> 0 | Some n \<Rightarrow> n)))"

text \<open>\<^verbatim>\<open>save_highscore\<close>: a failure to open or write is swallowed.\<close>

definition save_highscore :: "py \<Rightarrow> int \<Rightarrow> hs_file \<Rightarrow> hs_file" where
  "save_highscore B sc f =
     (if writable f
      then f\<lparr>content := Some (py_str B sc), writes := writes f @ [py_str B sc]\<rparr>
      else f)"

text \<open>
  A plain instance of the built-ins on ASCII text, used to evaluate the model on
  concrete files: blanks are stripped at both ends, and a number is an optional sign
  followed by decimal digits.
\<close>

definition is_space :: "char \<Rightarrow> bool" where
  "is_space c = (c \<in> set [CHR '' '', CHR 0x09, CHR 0x0A, CHR 0x0B, CHR 0x0C, CHR 0x0D])"

definition ascii_strip :: "string \<Rightarrow> string" where
  "ascii_strip s = rev (dropWhile is_space (rev (dropWhile is_space s)))"

definition digit_of :: "char \<Rightarrow> nat option" where
  "digit_of c =
     (let n = of_char c :: nat in if 48 \<le> n \<and> n \<le> 57 then Some (n - 48) else None)"

fun digits_value :: "nat \<Rightarrow> string \<Rightarrow> nat option" where
  "digits_value acc [] = Some acc"
| "digits_value acc (c # cs) =
     (case digit_of c of None \<Rightarrow> None | Some d \<Rightarrow> digits_value (10 * acc + d) cs)"

definition decimal_int :: "string \<Rightarrow> int option" where
  "decimal_int s =
     (case s of
        [] \<Rightarrow> None
      | c # cs \<Rightarrow>
          if c = CHR ''-'' then (if cs = [] then None else map_option (\<lambda>n. - int n) (digits_value 0 cs))
          else if c = CHR ''+'' then (if cs = [] then None else map_option int (digits_value 0 cs))
          else map_option int (digits_value 0 s))"

fun nat_digits :: "nat \<Rightarrow> nat \<Rightarrow> string" where
  "nat_digits 0 n = []"
| "nat_digits (Suc k) n =
     (if n < 10 then [char_of (48 + n)]
      else nat_digits k (n div 10) @ [char_of (48 + n mod 10)])"

definition decimal_str :: "int \<Rightarrow> string" where
  "decimal_str i =
     (if i < 0 then CHR ''-'' # nat_digits (Suc (nat (- i))) (nat (- i))
      else nat_digits (Suc (nat i)) (nat i))"

definition ascii_py :: py where
  "ascii_py = \<lparr>py_strip = ascii_strip, py_int = decimal_int, py_str = decimal_str\<rparr>"

section \<open>The game session\<close>

text \<open>The attributes of \<^verbatim>\<open>class ItrikSurfers\<close>.\<close>

record ItrikSurfers =
  running :: bool
  playing :: bool
  player :: Player
  background :: "Layer list"
  scroll_speed :: real
  spawn_timer :: int
  coin_timer :: int
  power_timer :: int
  obstacles :: "Obstacle list"
  coins :: "Coin list"
  powerups :: "PowerUp list"
  score :: int
  distance :: real
  highscore :: int
  game_over :: bool
  difficulty_increment :: real

definition ItrikSurfers_init :: "py \<Rightarrow> hs_file \<Rightarrow> ItrikSurfers" where
  "ItrikSurfers_init B f =
     \<lparr>running = True, playing = False, player = Player_init, background = Background_init,
      scroll_speed = 6, spawn_timer = 0, coin_timer = 0, power_timer = 0,
      obstacles = [], coins = [], powerups = [], score = 0, distance = 0,
      highscore = load_highscore B f, game_over = False,
      difficulty_increment = 5 / 10000\<rparr>"

definition reset :: "ItrikSurfers \<Rightarrow> ItrikSurfers" where
  "reset g =
     g\<lparr>player := Player_init, obstacles := [], coins := [], powerups := [], score := 0,
       distance := 0, scroll_speed := 6, spawn_timer := 0, coin_timer := 0,
       power_timer := 0, game_over := False\<rparr>"

text \<open>
  The values \<^verbatim>\<open>random.randint\<close> returns during one call of \<^verbatim>\<open>update\<close>, in the order of
  the calls; \<open>draws_ok\<close> says that each lies in the range it was asked for.
\<close>

record Draws =
  rnd_ob_w :: int
  rnd_ob_h :: int
  rnd_ob_dx :: int
  rnd_coin_dx :: int
  rnd_coin_y :: int
  rnd_pu_dx :: int
  rnd_pu_y :: int

definition draws_ok :: "Draws \<Rightarrow> bool" where
  "draws_ok r =
     (30 \<le> rnd_ob_w r \<and> rnd_ob_w r \<le> 70 \<and> 40 \<le> rnd_ob_h r \<and> rnd_ob_h r \<le> 100 \<and>
      20 \<le> rnd_ob_dx r \<and> rnd_ob_dx r \<le> 120 \<and> 30 \<le> rnd_coin_dx r \<and> rnd_coin_dx r \<le> 200 \<and>
      GROUND_Y - 180 \<le> rnd_coin_y r \<and> rnd_coin_y r \<le> GROUND_Y - 40 \<and>
      200 \<le> rnd_pu_dx r \<and> rnd_pu_dx r \<le> 600 \<and>
      GROUND_Y - 180 \<le> rnd_pu_y r \<and> rnd_pu_y r \<le> GROUND_Y - 60)"

definition spawn_obstacle :: "Draws \<Rightarrow> ItrikSurfers \<Rightarrow> ItrikSurfers" where
  "spawn_obstacle r g =
     g\<lparr>obstacles := obstacles g @
         [Obstacle_init (WIDTH + rnd_ob_dx r) (rnd_ob_w r) (rnd_ob_h r) (scroll_speed g)]\<rparr>"

definition spawn_coin :: "Draws \<Rightarrow> ItrikSurfers \<Rightarrow> ItrikSurfers" where
  "spawn_coin r g =
     g\<lparr>coins := coins g @ [Coin_init (WIDTH + rnd_coin_dx r) (rnd_coin_y r) (scroll_speed g)]\<rparr>"

definition spawn_powerup :: "Draws \<Rightarrow> ItrikSurfers \<Rightarrow> ItrikSurfers" where
  "spawn_powerup r g =
     g\<lparr>powerups := powerups g @
         [PowerUp_init (WIDTH + rnd_pu_dx r) (rnd_pu_y r) (scroll_speed g) ''shield'']\<rparr>"

subsection \<open>The stages of \<^verbatim>\<open>update\<close>\<close>

text \<open>The difficulty ramp, the distance and the background.\<close>

definition difficulty_stage :: "ItrikSurfers \<Rightarrow> ItrikSurfers" where
  "difficulty_stage g =
     (let s1 = scroll_speed g + difficulty_increment g
      in g\<lparr>scroll_speed := s1, distance := distance g + s1 / 10,
           background := Background_update s1 (background g)\<rparr>)"

text \<open>The three spawn timers.\<close>

definition spawn_stage :: "Draws \<Rightarrow> ItrikSurfers \<Rightarrow> ItrikSurfers" where
  "spawn_stage r g =
     (let g1 = g\<lparr>spawn_timer := spawn_timer g + 1\<rparr>;
          g2 = (if max 18 (70 - int_trunc (scroll_speed g1 * 3)) < spawn_timer g1
                then (spawn_obstacle r g1)\<lparr>spawn_timer := 0\<rparr> else g1);
          g3 = g2\<lparr>coin_timer := coin_timer g2 + 1\<rparr>;
          g4 = (if 40 < coin_timer g3 then (spawn_coin r g3)\<lparr>coin_timer := 0\<rparr> else g3);
          g5 = g4\<lparr>power_timer := power_timer g4 + 1\<rparr>
      in if 900 < power_timer g5 then (spawn_powerup r g5)\<lparr>power_timer := 0\<rparr> else g5)"

definition player_stage :: "ItrikSurfers \<Rightarrow> ItrikSurfers" where
  "player_stage g = g\<lparr>player := Player_update (player g)\<rparr>"

text \<open>
  The three loops run over a copy of the collection and take objects out of the
  collection itself with \<^verbatim>\<open>list.remove\<close>. The objects of a collection are distinct
  (each comes from its own constructor call) and compare by identity, so \<^verbatim>\<open>remove(ob)\<close>
  takes out the visited object and no other, and a second \<^verbatim>\<open>remove\<close> of it raises inside
  \<^verbatim>\<open>try\<close> and does nothing. The model starts each loop from the empty collection and
  appends every visited object that was not removed, in the order of the visit.
\<close>

definition obstacle_moved :: "real \<Rightarrow> Obstacle \<Rightarrow> Obstacle" where
  "obstacle_moved s ob = Obstacle_update (ob\<lparr>ob_speed := s\<rparr>)"

definition obstacle_visit :: "Obstacle \<Rightarrow> ItrikSurfers \<Rightarrow> ItrikSurfers" where
  "obstacle_visit ob0 g =
     (let ob = obstacle_moved (scroll_speed g) ob0;
          offscreen = rect_right (ob_rect ob) < - 50;
          hit = colliderect (ob_rect ob) (p_rect (player g));
          g1 = (if hit \<and> p_shield (player g) \<le> 0
                then g\<lparr>game_over := True, playing := False\<rparr> else g);
          removed = (offscreen \<or> (hit \<and> 0 < p_shield (player g)));
          award = (\<not> ob_passed ob \<and> rect_right (ob_rect ob) < p_x (player g1));
          ob1 = (if award then ob\<lparr>ob_passed := True\<rparr> else ob);
          g2 = (if award then g1\<lparr>score := score g1 + 5\<rparr> else g1)
      in if removed then g2 else g2\<lparr>obstacles := obstacles g2 @ [ob1]\<rparr>)"

text \<open>
  The conditions of one visit, on the obstacle after its move: whether the visit takes
  it out of the collection, and whether it earns the passing award.
\<close>

definition obstacle_removed :: "ItrikSurfers \<Rightarrow> Obstacle \<Rightarrow> bool" where
  "obstacle_removed g ob =
     (rect_right (ob_rect ob) < - 50 \<or>
      (colliderect (ob_rect ob) (p_rect (player g)) \<and> 0 < p_shield (player g)))"

definition obstacle_awarded :: "int \<Rightarrow> Obstacle \<Rightarrow> bool" where
  "obstacle_awarded px ob = (\<not> ob_passed ob \<and> rect_right (ob_rect ob) < px)"

definition obstacle_scored :: "int \<Rightarrow> Obstacle \<Rightarrow> Obstacle" where
  "obstacle_scored px ob = (if obstacle_awarded px ob then ob\<lparr>ob_passed := True\<rparr> else ob)"

fun obstacles_loop :: "Obstacle list \<Rightarrow> ItrikSurfers \<Rightarrow> ItrikSurfers" where
  "obstacles_loop [] g = g"
| "obstacles_loop (ob # obs) g = obstacles_loop obs (obstacle_visit ob g)"

definition obstacles_stage :: "ItrikSurfers \<Rightarrow> ItrikSurfers" where
  "obstacles_stage g = obstacles_loop (obstacles g) (g\<lparr>obstacles := []\<rparr>)"

definition coin_moved :: "real \<Rightarrow> Coin \<Rightarrow> Coin" where
  "coin_moved s c = Coin_update (c\<lparr>c_speed := s\<rparr>)"

definition coin_visit :: "Coin \<Rightarrow> ItrikSurfers \<Rightarrow> ItrikSurfers" where
  "coin_visit c0 g =
     (let c = coin_moved (scroll_speed g) c0;
          offscreen = c_x c < - 50;
          hit = (colliderect (c_rect c) (p_rect (player g)) \<and> \<not> c_collected c);
          c1 = (if hit then c\<lparr>c_collected := True\<rparr> else c);
          g1 = (if hit then g\<lparr>score := score g + 10\<rparr> else g)
      in if offscreen \<or> hit then g1 else g1\<lparr>coins := coins g1 @ [c1]\<rparr>)"

fun coins_loop :: "Coin list \<Rightarrow> ItrikSurfers \<Rightarrow> ItrikSurfers" where
  "coins_loop [] g = g"
| "coins_loop (c # cs) g = coins_loop cs (coin_visit c g)"

definition coins_stage :: "ItrikSurfers \<Rightarrow> ItrikSurfers" where
  "coins_stage g = coins_loop (coins g) (g\<lparr>coins := []\<rparr>)"

definition powerup_moved :: "real \<Rightarrow> PowerUp \<Rightarrow> PowerUp" where
  "powerup_moved s pu = PowerUp_update (pu\<lparr>pu_speed := s\<rparr>)"

definition powerup_visit :: "PowerUp \<Rightarrow> ItrikSurfers \<Rightarrow> ItrikSurfers" where
  "powerup_visit pu0 g =
     (let pu = powerup_moved (scroll_speed g) pu0;
          offscreen = pu_x pu < - 50;
          hit = colliderect (pu_rect pu) (p_rect (player g));
          g1 = (if hit \<and> pu_kind pu = ''shield''
                then g\<lparr>player := (player g)\<lparr>p_shield := FPS * 3\<rparr>\<rparr> else g)
      in if offscreen \<or> hit then g1 else g1\<lparr>powerups := powerups g1 @ [pu]\<rparr>)"

fun powerups_loop :: "PowerUp list \<Rightarrow> ItrikSurfers \<Rightarrow> ItrikSurfers" where
  "powerups_loop [] g = g"
| "powerups_loop (pu # pus) g = powerups_loop pus (powerup_visit pu g)"

definition powerups_stage :: "ItrikSurfers \<Rightarrow> ItrikSurfers" where
  "powerups_stage g = powerups_loop (powerups g) (g\<lparr>powerups := []\<rparr>)"

text \<open>The last statement of \<^verbatim>\<open>update\<close>: the speed bonus.\<close>

definition bonus_stage :: "ItrikSurfers \<Rightarrow> ItrikSurfers" where
  "bonus_stage g = g\<lparr>score := score g + int_trunc (scroll_speed g / 250)\<rparr>"

text \<open>The state when the obstacle loop starts, and the state before the last statement.\<close>

definition before_obstacles :: "Draws \<Rightarrow> ItrikSurfers \<Rightarrow> ItrikSurfers" where
  "before_obstacles r g = player_stage (spawn_stage r (difficulty_stage g))"

definition before_powerups :: "Draws \<Rightarrow> ItrikSurfers \<Rightarrow> ItrikSurfers" where
  "before_powerups r g = coins_stage (obstacles_stage (before_obstacles r g))"

definition before_bonus :: "Draws \<Rightarrow> ItrikSurfers \<Rightarrow> ItrikSurfers" where
  "before_bonus r g = powerups_stage (before_powerups r g)"

definition update :: "Draws \<Rightarrow> ItrikSurfers \<Rightarrow> ItrikSurfers" where
  "update r g = (if \<not> playing g then g else bonus_stage (before_bonus r g))"

text \<open>
  \<^verbatim>\<open>game_over_screen\<close>: the high score is replaced and saved when the score beats it; the
  rest of the method draws.
\<close>

definition game_over_screen :: "py \<Rightarrow> ItrikSurfers \<Rightarrow> hs_file \<Rightarrow> ItrikSurfers \<times> hs_file" where
  "game_over_screen B g f =
     (if highscore g < score g
      then (g\<lparr>highscore := score g\<rparr>, save_highscore B (score g) f)
      else (g, f))"

section \<open>The main loop\<close>

datatype key = K_SPACE | K_r | K_q | K_p | K_other

datatype event = QUIT | KEYDOWN key | OTHER_EVENT

text \<open>The variables of \<^verbatim>\<open>main\<close>, and the high score file.\<close>

record Loop =
  game :: ItrikSurfers
  in_start :: bool
  paused :: bool
  store :: hs_file

definition main_init :: "py \<Rightarrow> hs_file \<Rightarrow> Loop" where
  "main_init B f = \<lparr>game = ItrikSurfers_init B f, in_start = True, paused = False, store = f\<rparr>"

fun handle_event :: "event \<Rightarrow> Loop \<Rightarrow> Loop" where
  "handle_event QUIT s = s\<lparr>game := (game s)\<lparr>running := False\<rparr>\<rparr>"
| "handle_event (KEYDOWN k) s =
     (if in_start s
      then (if k = K_SPACE then s\<lparr>game := (game s)\<lparr>playing := True\<rparr>, in_start := False\<rparr> else s)
      else if \<not> playing (game s) \<and> game_over (game s)
      then (if k = K_r then s\<lparr>game := (reset (game s))\<lparr>playing := True\<rparr>\<rparr>
            else if k = K_q then s\<lparr>game := (game s)\<lparr>running := False\<rparr>\<rparr>
            else s)
      else (let s1 = (if k = K_SPACE
                      then s\<lparr>game := (game s)\<lparr>player := Player_jump (player (game s))\<rparr>\<rparr>
                      else s)
            in if k = K_p then s1\<lparr>paused := \<not> paused s1\<rparr> else s1))"
| "handle_event OTHER_EVENT s = s"

text \<open>
  One pass through the body of the \<^verbatim>\<open>while\<close> loop: the events of the frame, the two
  \<^verbatim>\<open>continue\<close> exits, the update, and the game-over screen. Drawing changes nothing.
\<close>

definition frame :: "py \<Rightarrow> event list \<Rightarrow> Draws \<Rightarrow> Loop \<Rightarrow> Loop" where
  "frame B evs r s =
     (let s1 = fold handle_event evs s
      in if in_start s1 then s1
         else if paused s1 then s1
         else (let g1 = (if playing (game s1) then update r (game s1) else game s1)
               in if game_over g1
                  then (case game_over_screen B g1 (store s1) of
                          (g2, f2) \<Rightarrow> s1\<lparr>game := g2, store := f2\<rparr>)
                  else s1\<lparr>game := g1\<rparr>))"

text \<open>The loop on a finite list of frames; it stops when \<^verbatim>\<open>running\<close> is false.\<close>

fun run :: "py \<Rightarrow> (event list \<times> Draws) list \<Rightarrow> Loop \<Rightarrow> Loop" where
  "run B [] s = s"
| "run B ((evs, r) # fs) s = (if running (game s) then run B fs (frame B evs r s) else s)"

section \<open>Invariants of the session\<close>

text \<open>
  What holds of the player in every state of the program: the horizontal place, the
  ground as a bound, and the grounded flag only at the ground. And of the session: the
  scroll speed never below its start value, the increment as initialised.
\<close>

definition player_inv :: "Player \<Rightarrow> bool" where
  "player_inv p =
     (p_x p = PLAYER_X \<and> p_y p \<le> of_int (GROUND_Y - p_height p) \<and>
      (p_on_ground p \<longrightarrow> p_y p = of_int (GROUND_Y - p_height p)))"

definition game_inv :: "ItrikSurfers \<Rightarrow> bool" where
  "game_inv g =
     (player_inv (player g) \<and> 6 \<le> scroll_speed g \<and> difficulty_increment g = 5 / 10000)"

text \<open>
  The passing flag of an obstacle agrees with its place: it is set exactly when the
  right edge is left of the player's x.
\<close>

definition obstacle_inv :: "int \<Rightarrow> Obstacle \<Rightarrow> bool" where
  "obstacle_inv px ob = (ob_passed ob \<longleftrightarrow> rect_right (ob_rect ob) < px)"

definition session_inv :: "ItrikSurfers \<Rightarrow> bool" where
  "session_inv g = (game_inv g \<and> list_all (obstacle_inv PLAYER_X) (obstacles g))"

definition frames_ok :: "(event list \<times> Draws) list \<Rightarrow> bool" where
  "frames_ok fs = list_all (\<lambda>fr. draws_ok (snd fr)) fs"

section \<open>Concrete sessions\<close>

text \<open>
  A high score file holding 12, one set of random draws, a session that has just been
  started, and a session with an obstacle that reaches the player on the next update,
  with a chosen shield timer.
\<close>

definition demo_file :: hs_file where
  "demo_file = \<lparr>content = Some ''12'', writable = True, writes = []\<rparr>"

definition demo_draws :: Draws where
  "demo_draws =
     \<lparr>rnd_ob_w = 50, rnd_ob_h = 60, rnd_ob_dx = 100, rnd_coin_dx = 30, rnd_coin_y = 300,
      rnd_pu_dx = 200, rnd_pu_y = 300\<rparr>"

definition demo_game :: ItrikSurfers where
  "demo_game = (ItrikSurfers_init ascii_py demo_file)\<lparr>playing := True\<rparr>"

definition crash_game :: "int \<Rightarrow> ItrikSurfers" where
  "crash_game sh =
     demo_game\<lparr>player := Player_init\<lparr>p_shield := sh\<rparr>,
                obstacles := [Obstacle_init 130 50 60 6]\<rparr>"

definition paused_jump_frames :: "(event list \<times> Draws) list" where
  "paused_jump_frames =
     [([KEYDOWN K_SPACE], demo_draws), ([KEYDOWN K_p, KEYDOWN K_SPACE], demo_draws)]"

text \<open>Sessions with an obstacle about to pass the player, and with a power-up at the player.\<close>

definition passing_game :: ItrikSurfers where
  "passing_game = demo_game\<lparr>obstacles := [Obstacle_init 72 50 60 6]\<rparr>"

definition pickup_game :: "string \<Rightarrow> ItrikSurfers" where
  "pickup_game k = demo_game\<lparr>powerups := [PowerUp_init 150 370 6 k]\<rparr>"

definition fast_game :: ItrikSurfers where
  "fast_game =
     demo_game\<lparr>scroll_speed := 33 / 5, obstacles := [Obstacle_init 500 50 60 (33 / 5)],
                coins := [Coin_init 600 300 (33 / 5)],
                powerups := [PowerUp_init 700 300 (33 / 5) ''shield'']\<rparr>"

text \<open>Sessions that have just ended with a given score, and a very fast session.\<close>

definition ended_game :: "int \<Rightarrow> ItrikSurfers" where
  "ended_game sc = demo_game\<lparr>playing := False, game_over := True, score := sc\<rparr>"

definition ended_loop :: "int \<Rightarrow> Loop" where
  "ended_loop sc =
     \<lparr>game = ended_game sc, in_start = False, paused = False, store = demo_file\<rparr>"

definition rocket_game :: ItrikSurfers where
  "rocket_game = demo_game\<lparr>scroll_speed := 500\<rparr>"

definition playing_loop :: Loop where
  "playing_loop = \<lparr>game = demo_game, in_start = False, paused = False, store = demo_file\<rparr>"

text \<open>A writable high score file with a given text, or none.\<close>

definition file_with :: "string option \<Rightarrow> hs_file" where
  "file_with t = \<lparr>content = t, writable = True, writes = []\<rparr>"

section \<open>Frame conditions of the stages\<close>

lemma obstacle_visit_frame:
  "player (obstacle_visit ob g) = player g"
  "scroll_speed (obstacle_visit ob g) = scroll_speed g"
  "coins (obstacle_visit ob g) = coins g"
  "powerups (obstacle_visit ob g) = powerups g"
  by (simp_all add: obstacle_visit_def Let_def)

lemma obstacles_loop_frame:
  "player (obstacles_loop obs g) = player g \<and>
   scroll_speed (obstacles_loop obs g) = scroll_speed g \<and>
   coins (obstacles_loop obs g) = coins g \<and>
   powerups (obstacles_loop obs g) = powerups g"
  by (induction obs arbitrary: g) (simp_all add: obstacle_visit_frame)

lemma obstacle_visit_obstacles:
  "obstacles (obstacle_visit ob g) =
     obstacles g @
       (let ob1 = obstacle_moved (scroll_speed g) ob
        in if obstacle_removed g ob1 then [] else [obstacle_scored (p_x (player g)) ob1])"
  by (simp add: obstacle_visit_def obstacle_removed_def obstacle_scored_def
      obstacle_awarded_def Let_def)

lemma obstacle_removed_cong:
  "player g1 = player g \<Longrightarrow> obstacle_removed g1 = obstacle_removed g"
  by (simp add: obstacle_removed_def fun_eq_iff)

lemma obstacles_loop_obstacles:
  "obstacles (obstacles_loop obs g) =
     obstacles g @
       map (obstacle_scored (p_x (player g)))
         (filter (\<lambda>ob. \<not> obstacle_removed g ob) (map (obstacle_moved (scroll_speed g)) obs))"
proof (induction obs arbitrary: g)
  case Nil
  show ?case by simp
next
  case (Cons ob obs)
  have r: "obstacle_removed (obstacle_visit ob g) = obstacle_removed g"
    by (rule obstacle_removed_cong) (simp add: obstacle_visit_frame)
  show ?case
    by (simp add: Cons.IH obstacle_visit_frame obstacle_visit_obstacles r Let_def)
qed

lemma obstacle_visit_flags:
  "playing (obstacle_visit ob g) =
     (playing g \<and>
      \<not> (colliderect (ob_rect (obstacle_moved (scroll_speed g) ob)) (p_rect (player g)) \<and>
         p_shield (player g) \<le> 0))"
  "game_over (obstacle_visit ob g) =
     (game_over g \<or>
      (colliderect (ob_rect (obstacle_moved (scroll_speed g) ob)) (p_rect (player g)) \<and>
       p_shield (player g) \<le> 0))"
  by (auto simp add: obstacle_visit_def Let_def)

lemma obstacles_loop_flags:
  "playing (obstacles_loop obs g) =
     (playing g \<and>
      \<not> (p_shield (player g) \<le> 0 \<and>
         (\<exists>ob\<in>set obs.
            colliderect (ob_rect (obstacle_moved (scroll_speed g) ob)) (p_rect (player g))))) \<and>
   game_over (obstacles_loop obs g) =
     (game_over g \<or>
      (p_shield (player g) \<le> 0 \<and>
       (\<exists>ob\<in>set obs.
          colliderect (ob_rect (obstacle_moved (scroll_speed g) ob)) (p_rect (player g)))))"
proof (induction obs arbitrary: g)
  case Nil
  show ?case by simp
next
  case (Cons ob obs)
  show ?case
    by (simp add: Cons.IH obstacle_visit_frame obstacle_visit_flags) blast
qed

lemma obstacle_visit_score:
  "score (obstacle_visit ob g) =
     score g +
       (if obstacle_awarded (p_x (player g)) (obstacle_moved (scroll_speed g) ob) then 5 else 0)"
  by (simp add: obstacle_visit_def obstacle_awarded_def Let_def)

lemma obstacles_loop_score:
  "score (obstacles_loop obs g) =
     score g +
       5 * int (length (filter (obstacle_awarded (p_x (player g)))
                  (map (obstacle_moved (scroll_speed g)) obs)))"
  by (induction obs arbitrary: g)
    (simp_all add: obstacle_visit_frame obstacle_visit_score)

lemma coin_visit_frame:
  "player (coin_visit c g) = player g"
  "scroll_speed (coin_visit c g) = scroll_speed g"
  "obstacles (coin_visit c g) = obstacles g"
  "powerups (coin_visit c g) = powerups g"
  "playing (coin_visit c g) = playing g"
  "game_over (coin_visit c g) = game_over g"
  by (simp_all add: coin_visit_def Let_def)

lemma coins_loop_frame:
  "player (coins_loop cs g) = player g \<and>
   scroll_speed (coins_loop cs g) = scroll_speed g \<and>
   obstacles (coins_loop cs g) = obstacles g \<and>
   powerups (coins_loop cs g) = powerups g \<and>
   playing (coins_loop cs g) = playing g \<and>
   game_over (coins_loop cs g) = game_over g"
  by (induction cs arbitrary: g) (simp_all add: coin_visit_frame)

lemma coin_visit_coins:
  "coins (coin_visit c g) =
     coins g @
       (let c1 = coin_moved (scroll_speed g) c
        in if c_x c1 < - 50 \<or> (colliderect (c_rect c1) (p_rect (player g)) \<and> \<not> c_collected c1)
           then [] else [c1])"
  by (simp add: coin_visit_def Let_def)

lemma coins_loop_coins:
  "coins (coins_loop cs g) =
     coins g @
       filter (\<lambda>c. \<not> (c_x c < - 50 \<or>
                      (colliderect (c_rect c) (p_rect (player g)) \<and> \<not> c_collected c)))
         (map (coin_moved (scroll_speed g)) cs)"
  by (induction cs arbitrary: g)
    (simp_all add: coin_visit_frame coin_visit_coins Let_def)

lemma powerup_visit_frame:
  "scroll_speed (powerup_visit pu g) = scroll_speed g"
  "obstacles (powerup_visit pu g) = obstacles g"
  "coins (powerup_visit pu g) = coins g"
  "playing (powerup_visit pu g) = playing g"
  "game_over (powerup_visit pu g) = game_over g"
  "score (powerup_visit pu g) = score g"
  "p_rect (player (powerup_visit pu g)) = p_rect (player g)"
  "p_x (player (powerup_visit pu g)) = p_x (player g)"
  "p_y (player (powerup_visit pu g)) = p_y (player g)"
  "p_height (player (powerup_visit pu g)) = p_height (player g)"
  "p_on_ground (player (powerup_visit pu g)) = p_on_ground (player g)"
  by (simp_all add: powerup_visit_def Let_def)

lemma powerups_loop_frame:
  "scroll_speed (powerups_loop pus g) = scroll_speed g \<and>
   obstacles (powerups_loop pus g) = obstacles g \<and>
   coins (powerups_loop pus g) = coins g \<and>
   playing (powerups_loop pus g) = playing g \<and>
   game_over (powerups_loop pus g) = game_over g \<and>
   score (powerups_loop pus g) = score g \<and>
   p_rect (player (powerups_loop pus g)) = p_rect (player g) \<and>
   p_x (player (powerups_loop pus g)) = p_x (player g) \<and>
   p_y (player (powerups_loop pus g)) = p_y (player g) \<and>
   p_height (player (powerups_loop pus g)) = p_height (player g) \<and>
   p_on_ground (player (powerups_loop pus g)) = p_on_ground (player g)"
  by (induction pus arbitrary: g) (simp_all add: powerup_visit_frame)

lemma powerup_visit_powerups:
  "powerups (powerup_visit pu g) =
     powerups g @
       (let pu1 = powerup_moved (scroll_speed g) pu
        in if pu_x pu1 < - 50 \<or> colliderect (pu_rect pu1) (p_rect (player g)) then [] else [pu1])"
  by (simp add: powerup_visit_def Let_def)

lemma powerups_loop_powerups:
  "powerups (powerups_loop pus g) =
     powerups g @
       filter (\<lambda>pu. \<not> (pu_x pu < - 50 \<or> colliderect (pu_rect pu) (p_rect (player g))))
         (map (powerup_moved (scroll_speed g)) pus)"
  by (induction pus arbitrary: g)
    (simp_all add: powerup_visit_frame powerup_visit_powerups Let_def)

lemma powerup_visit_shield:
  "p_shield (player (powerup_visit pu g)) =
     (if colliderect (pu_rect (powerup_moved (scroll_speed g) pu)) (p_rect (player g)) \<and>
         pu_kind pu = ''shield''
      then FPS * 3 else p_shield (player g))"
  by (simp add: powerup_visit_def powerup_moved_def PowerUp_update_def Let_def)

lemma powerups_loop_shield:
  "p_shield (player (powerups_loop pus g)) =
     (if \<exists>pu\<in>set pus.
           colliderect (pu_rect (powerup_moved (scroll_speed g) pu)) (p_rect (player g)) \<and>
           pu_kind pu = ''shield''
      then FPS * 3 else p_shield (player g))"
proof (induction pus arbitrary: g)
  case Nil
  show ?case by simp
next
  case (Cons pu pus)
  show ?case
    by (auto simp add: Cons.IH powerup_visit_frame powerup_visit_shield)
qed

lemma difficulty_stage_frame:
  "playing (difficulty_stage g) = playing g"
  "game_over (difficulty_stage g) = game_over g"
  "player (difficulty_stage g) = player g"
  "score (difficulty_stage g) = score g"
  "scroll_speed (difficulty_stage g) = scroll_speed g + difficulty_increment g"
  by (simp_all add: difficulty_stage_def Let_def)

lemma spawn_stage_frame:
  "playing (spawn_stage r g) = playing g"
  "game_over (spawn_stage r g) = game_over g"
  "player (spawn_stage r g) = player g"
  "score (spawn_stage r g) = score g"
  "scroll_speed (spawn_stage r g) = scroll_speed g"
  by (simp_all add: spawn_stage_def spawn_obstacle_def spawn_coin_def spawn_powerup_def Let_def)

lemma before_obstacles_frame:
  "playing (before_obstacles r g) = playing g"
  "game_over (before_obstacles r g) = game_over g"
  "player (before_obstacles r g) = Player_update (player g)"
  "score (before_obstacles r g) = score g"
  "scroll_speed (before_obstacles r g) = scroll_speed g + difficulty_increment g"
  by (simp_all add: before_obstacles_def player_stage_def spawn_stage_frame
      difficulty_stage_frame)

lemma obstacles_stage_frame:
  "player (obstacles_stage g) = player g"
  "scroll_speed (obstacles_stage g) = scroll_speed g"
  "coins (obstacles_stage g) = coins g"
  "powerups (obstacles_stage g) = powerups g"
  by (simp_all add: obstacles_stage_def obstacles_loop_frame)

lemma coins_stage_frame:
  "player (coins_stage g) = player g"
  "scroll_speed (coins_stage g) = scroll_speed g"
  "obstacles (coins_stage g) = obstacles g"
  "powerups (coins_stage g) = powerups g"
  "playing (coins_stage g) = playing g"
  "game_over (coins_stage g) = game_over g"
  by (simp_all add: coins_stage_def coins_loop_frame)

lemma powerups_stage_frame:
  "scroll_speed (powerups_stage g) = scroll_speed g"
  "obstacles (powerups_stage g) = obstacles g"
  "coins (powerups_stage g) = coins g"
  "playing (powerups_stage g) = playing g"
  "game_over (powerups_stage g) = game_over g"
  "score (powerups_stage g) = score g"
  "p_rect (player (powerups_stage g)) = p_rect (player g)"
  "p_x (player (powerups_stage g)) = p_x (player g)"
  "p_y (player (powerups_stage g)) = p_y (player g)"
  "p_height (player (powerups_stage g)) = p_height (player g)"
  "p_on_ground (player (powerups_stage g)) = p_on_ground (player g)"
  by (simp_all add: powerups_stage_def powerups_loop_frame)

lemma bonus_stage_frame:
  "scroll_speed (bonus_stage g) = scroll_speed g"
  "obstacles (bonus_stage g) = obstacles g"
  "coins (bonus_stage g) = coins g"
  "powerups (bonus_stage g) = powerups g"
  "playing (bonus_stage g) = playing g"
  "game_over (bonus_stage g) = game_over g"
  "player (bonus_stage g) = player g"
  by (simp_all add: bonus_stage_def)

lemmas stage_frames =
  before_obstacles_frame obstacles_stage_frame coins_stage_frame powerups_stage_frame
  bonus_stage_frame

lemma obstacles_stage_obstacles:
  "obstacles (obstacles_stage g) =
     map (obstacle_scored (p_x (player g)))
       (filter (\<lambda>ob. \<not> obstacle_removed g ob)
          (map (obstacle_moved (scroll_speed g)) (obstacles g)))"
proof -
  have r: "obstacle_removed (g\<lparr>obstacles := []\<rparr>) = obstacle_removed g"
    by (rule obstacle_removed_cong) simp
  show ?thesis
    by (simp add: obstacles_stage_def obstacles_loop_obstacles r)
qed

lemma obstacles_stage_flags:
  "playing (obstacles_stage g) =
     (playing g \<and>
      \<not> (p_shield (player g) \<le> 0 \<and>
         (\<exists>ob\<in>set (obstacles g).
            colliderect (ob_rect (obstacle_moved (scroll_speed g) ob)) (p_rect (player g)))))"
  "game_over (obstacles_stage g) =
     (game_over g \<or>
      (p_shield (player g) \<le> 0 \<and>
       (\<exists>ob\<in>set (obstacles g).
          colliderect (ob_rect (obstacle_moved (scroll_speed g) ob)) (p_rect (player g)))))"
  by (simp_all add: obstacles_stage_def obstacles_loop_flags)

lemma obstacles_stage_score:
  "score (obstacles_stage g) =
     score g +
       5 * int (length (filter (obstacle_awarded (p_x (player g)))
                  (map (obstacle_moved (scroll_speed g)) (obstacles g))))"
  by (simp add: obstacles_stage_def obstacles_loop_score)

lemma obstacle_scored_rect: "ob_rect (obstacle_scored px ob) = ob_rect ob"
  by (simp add: obstacle_scored_def)

lemma Player_update_shield:
  "p_shield (Player_update p) = (if 0 < p_shield p then p_shield p - 1 else p_shield p)"
  by (simp add: Player_update_def Let_def)




lemma visit_increment:
  "difficulty_increment (obstacle_visit ob g) = difficulty_increment g"
  "difficulty_increment (coin_visit c g) = difficulty_increment g"
  "difficulty_increment (powerup_visit pu g) = difficulty_increment g"
  by (simp_all add: obstacle_visit_def coin_visit_def powerup_visit_def Let_def)

lemma obstacles_loop_increment:
  "difficulty_increment (obstacles_loop obs g) = difficulty_increment g"
  by (induction obs arbitrary: g) (simp_all add: visit_increment)

lemma coins_loop_increment:
  "difficulty_increment (coins_loop cs g) = difficulty_increment g"
  by (induction cs arbitrary: g) (simp_all add: visit_increment)

lemma powerups_loop_increment:
  "difficulty_increment (powerups_loop pus g) = difficulty_increment g"
  by (induction pus arbitrary: g) (simp_all add: visit_increment)

lemma update_increment: "difficulty_increment (update r g) = difficulty_increment g"
  by (simp add: update_def before_bonus_def before_powerups_def before_obstacles_def
      bonus_stage_def powerups_stage_def coins_stage_def obstacles_stage_def player_stage_def
      spawn_stage_def spawn_obstacle_def spawn_coin_def spawn_powerup_def difficulty_stage_def
      obstacles_loop_increment coins_loop_increment powerups_loop_increment Let_def)

lemma update_unfold:
  "playing g \<Longrightarrow>
   update r g =
     bonus_stage (powerups_stage (coins_stage (obstacles_stage (before_obstacles r g))))"
  by (simp add: update_def before_bonus_def before_powerups_def)

lemma update_scroll_speed:
  "playing g \<Longrightarrow> scroll_speed (update r g) = scroll_speed g + difficulty_increment g"
  by (simp add: update_unfold stage_frames)

lemma update_player:
  assumes "playing g"
  shows "p_x (player (update r g)) = p_x (Player_update (player g))"
    and "p_y (player (update r g)) = p_y (Player_update (player g))"
    and "p_height (player (update r g)) = p_height (Player_update (player g))"
    and "p_on_ground (player (update r g)) = p_on_ground (Player_update (player g))"
    and "p_rect (player (update r g)) = p_rect (Player_update (player g))"
  using assms by (simp_all add: update_unfold stage_frames)

lemma Player_update_x: "p_x (Player_update p) = p_x p"
  by (simp add: Player_update_def Let_def)

lemma Player_update_height: "p_height (Player_update p) = p_height p"
  by (simp add: Player_update_def Let_def)

lemma Player_update_ground:
  "p_y (Player_update p) \<le> of_int (GROUND_Y - p_height (Player_update p))"
  "p_on_ground (Player_update p) \<longleftrightarrow>
     p_y (Player_update p) = of_int (GROUND_Y - p_height (Player_update p))"
  "p_on_ground (Player_update p) \<longrightarrow>
     p_dy (Player_update p) = 0 \<and> p_double_jump_allowed (Player_update p)"
  by (auto simp add: Player_update_def Let_def)

lemma player_inv_init: "player_inv Player_init"
  by (simp add: player_inv_def Player_init_def)

lemma player_inv_update: "player_inv p \<Longrightarrow> player_inv (Player_update p)"
  using Player_update_ground [of p] by (simp add: player_inv_def Player_update_x)

lemma player_inv_jump: "player_inv p \<Longrightarrow> player_inv (Player_jump p)"
  by (simp add: player_inv_def Player_jump_def)

lemma player_inv_game_update:
  assumes "player_inv (player g)"
  shows "player_inv (player (update r g))"
proof (cases "playing g")
  case True
  have "player_inv (Player_update (player g))"
    using assms by (rule player_inv_update)
  then show ?thesis
    by (simp add: player_inv_def update_player [OF True])
next
  case False
  then show ?thesis using assms by (simp add: update_def)
qed

lemma game_inv_update: "game_inv g \<Longrightarrow> game_inv (update r g)"
proof -
  assume a: "game_inv g"
  show ?thesis
  proof (cases "playing g")
    case True
    show ?thesis
      using a by (simp add: game_inv_def player_inv_game_update update_increment
          update_scroll_speed [OF True])
  next
    case False
    then show ?thesis using a by (simp add: update_def)
  qed
qed

lemma game_inv_reset: "game_inv g \<Longrightarrow> game_inv ((reset g)\<lparr>playing := True\<rparr>)"
  by (simp add: game_inv_def reset_def player_inv_init)

lemma game_inv_init: "game_inv (ItrikSurfers_init B f)"
  by (simp add: game_inv_def ItrikSurfers_init_def player_inv_init)

lemma game_inv_handle_event: "game_inv (game s) \<Longrightarrow> game_inv (game (handle_event e s))"
proof (cases e)
  case QUIT
  assume "game_inv (game s)"
  then show ?thesis by (simp add: QUIT game_inv_def)
next
  case (KEYDOWN k)
  assume a: "game_inv (game s)"
  then have j: "player_inv (Player_jump (player (game s)))"
    by (simp add: game_inv_def player_inv_jump)
  have r: "game_inv ((reset (game s))\<lparr>playing := True\<rparr>)"
    using a by (rule game_inv_reset)
  show ?thesis
    using a j r by (simp add: KEYDOWN game_inv_def Let_def)
next
  case OTHER_EVENT
  assume "game_inv (game s)"
  then show ?thesis by (simp add: OTHER_EVENT)
qed

lemma game_inv_events: "game_inv (game s) \<Longrightarrow> game_inv (game (fold handle_event evs s))"
  by (induction evs arbitrary: s) (simp_all add: game_inv_handle_event)

lemma game_inv_game_over_screen:
  "game_inv g \<Longrightarrow> game_inv (fst (game_over_screen B g f))"
  by (simp add: game_over_screen_def game_inv_def)

lemma frame_game:
  "game (frame B evs r s) =
     (let s1 = fold handle_event evs s
      in if in_start s1 \<or> paused s1 then game s1
         else (let g1 = (if playing (game s1) then update r (game s1) else game s1)
               in if game_over g1 then fst (game_over_screen B g1 (store s1)) else g1))"
  by (simp add: frame_def Let_def case_prod_beta)

lemma game_inv_frame: "game_inv (game s) \<Longrightarrow> game_inv (game (frame B evs r s))"
proof -
  assume a: "game_inv (game s)"
  let ?s1 = "fold handle_event evs s"
  have e: "game_inv (game ?s1)" using a by (rule game_inv_events)
  have u: "game_inv (update r (game ?s1))" using e by (rule game_inv_update)
  have o1: "game_inv (fst (game_over_screen B (update r (game ?s1)) (store ?s1)))"
    using u by (rule game_inv_game_over_screen)
  have o2: "game_inv (fst (game_over_screen B (game ?s1) (store ?s1)))"
    using e by (rule game_inv_game_over_screen)
  show ?thesis
    using e u o1 o2 by (simp add: frame_game Let_def)
qed

lemma game_inv_run: "game_inv (game s) \<Longrightarrow> game_inv (game (run B fs s))"
proof (induction fs arbitrary: s)
  case Nil
  then show ?case by simp
next
  case (Cons fr fs)
  obtain evs r where fr: "fr = (evs, r)" by (cases fr)
  show ?case
    using Cons.prems by (simp add: fr Cons.IH game_inv_frame)
qed

lemma game_inv_reachable: "game_inv (game (run B fs (main_init B f)))"
  by (rule game_inv_run) (simp add: main_init_def game_inv_init)

section \<open>The claims\<close>

subsection \<open>C1: an obstacle that hits the player\<close>

text \<open>
  Claim C1. In a tick of the playing session, \<open>g1\<close> is the state when the obstacle
  loop starts (the player has been updated, so the shield timer has had its decrement
  of the tick). If an obstacle, after its move, overlaps the player's box and the shield
  timer is 0 or less, the update ends with \<open>game_over\<close> true and \<open>playing\<close> false. If
  the shield timer is positive, the update ends with \<open>playing\<close> true and \<open>game_over\<close>
  as it was, the collection holds exactly the moved obstacles that are neither off the
  screen nor overlapping the player, so none that is left overlaps the player, and the
  obstacle loop leaves the shield timer as the player's update set it.
\<close>

theorem C1_obstacle_collision:
  assumes "playing g"
  shows "(let g1 = before_obstacles r g; g2 = update r g
          in ((\<exists>ob\<in>set (obstacles g1).
                 colliderect (ob_rect (obstacle_moved (scroll_speed g1) ob)) (p_rect (player g1))) \<and>
              p_shield (player g1) \<le> 0 \<longrightarrow> game_over g2 \<and> \<not> playing g2) \<and>
             (0 < p_shield (player g1) \<longrightarrow>
                playing g2 \<and> game_over g2 = game_over g \<and>
                obstacles g2 =
                  map (obstacle_scored (p_x (player g1)))
                    (filter (\<lambda>ob. \<not> rect_right (ob_rect ob) < - 50 \<and>
                                  \<not> colliderect (ob_rect ob) (p_rect (player g1)))
                       (map (obstacle_moved (scroll_speed g1)) (obstacles g1))) \<and>
                (\<forall>ob\<in>set (obstacles g2). \<not> colliderect (ob_rect ob) (p_rect (player g2)))) \<and>
             p_shield (player (obstacles_stage g1)) = p_shield (player g1) \<and>
             p_shield (player g1) =
               (if 0 < p_shield (player g) then p_shield (player g) - 1 else p_shield (player g)))"
proof -
  let ?g1 = "before_obstacles r g"
  have u: "update r g = bonus_stage (powerups_stage (coins_stage (obstacles_stage ?g1)))"
    using assms by (simp add: update_def before_bonus_def before_powerups_def)
  have fl: "playing (update r g) = playing (obstacles_stage ?g1)"
    "game_over (update r g) = game_over (obstacles_stage ?g1)"
    "obstacles (update r g) = obstacles (obstacles_stage ?g1)"
    "p_rect (player (update r g)) = p_rect (player ?g1)"
    by (simp_all add: u stage_frames)
  have sh: "0 < p_shield (player ?g1) \<Longrightarrow>
      obstacle_removed ?g1 = (\<lambda>ob. rect_right (ob_rect ob) < - 50 \<or>
         colliderect (ob_rect ob) (p_rect (player ?g1)))"
    by (simp add: obstacle_removed_def fun_eq_iff)
  have a: "(\<exists>ob\<in>set (obstacles ?g1).
              colliderect (ob_rect (obstacle_moved (scroll_speed ?g1) ob)) (p_rect (player ?g1))) \<and>
           p_shield (player ?g1) \<le> 0 \<longrightarrow> game_over (update r g) \<and> \<not> playing (update r g)"
    by (simp add: fl obstacles_stage_flags)
  have b1: "0 < p_shield (player ?g1) \<longrightarrow> playing (update r g) \<and> game_over (update r g) = game_over g"
    using assms by (simp add: fl obstacles_stage_flags before_obstacles_frame)
  have b2: "0 < p_shield (player ?g1) \<longrightarrow> obstacles (update r g) =
                  map (obstacle_scored (p_x (player ?g1)))
                    (filter (\<lambda>ob. \<not> rect_right (ob_rect ob) < - 50 \<and>
                                  \<not> colliderect (ob_rect ob) (p_rect (player ?g1)))
                       (map (obstacle_moved (scroll_speed ?g1)) (obstacles ?g1)))"
    by (simp add: fl obstacles_stage_obstacles sh)
  have b3: "0 < p_shield (player ?g1) \<longrightarrow>
      (\<forall>ob\<in>set (obstacles (update r g)). \<not> colliderect (ob_rect ob) (p_rect (player (update r g))))"
    by (auto simp add: fl obstacles_stage_obstacles sh obstacle_scored_rect)
  have c: "p_shield (player (obstacles_stage ?g1)) = p_shield (player ?g1)"
    by (simp add: obstacles_stage_frame)
  have d: "p_shield (player ?g1) =
               (if 0 < p_shield (player g) then p_shield (player g) - 1 else p_shield (player g))"
    by (simp add: before_obstacles_frame Player_update_shield)
  show ?thesis
    unfolding Let_def using a b1 b2 b3 c d by blast
qed

theorem C1_obstacle_collision_witness:
  "playing (crash_game 5) \<and> playing (crash_game 0) \<and>
   0 < p_shield (player (before_obstacles demo_draws (crash_game 5))) \<and>
   playing (update demo_draws (crash_game 5)) \<and>
   \<not> game_over (update demo_draws (crash_game 5)) \<and>
   obstacles (update demo_draws (crash_game 5)) = [] \<and>
   p_shield (player (before_obstacles demo_draws (crash_game 5))) = 4 \<and>
   game_over (update demo_draws (crash_game 0)) \<and>
   \<not> playing (update demo_draws (crash_game 0))"
proof -
  have p5: "playing (crash_game 5)" and p0: "playing (crash_game 0)"
    by code_simp+
  have s5: "0 < p_shield (player (before_obstacles demo_draws (crash_game 5)))"
    by code_simp
  have s0: "p_shield (player (before_obstacles demo_draws (crash_game 0))) \<le> 0"
    by code_simp
  have h0: "\<exists>ob\<in>set (obstacles (before_obstacles demo_draws (crash_game 0))).
      colliderect
        (ob_rect (obstacle_moved (scroll_speed (before_obstacles demo_draws (crash_game 0))) ob))
        (p_rect (player (before_obstacles demo_draws (crash_game 0))))"
    by code_simp
  have g5: "\<not> game_over (crash_game 5)"
    by code_simp
  have k5: "map (obstacle_scored (p_x (player (before_obstacles demo_draws (crash_game 5)))))
      (filter (\<lambda>ob. \<not> rect_right (ob_rect ob) < - 50 \<and>
                    \<not> colliderect (ob_rect ob)
                        (p_rect (player (before_obstacles demo_draws (crash_game 5)))))
         (map (obstacle_moved (scroll_speed (before_obstacles demo_draws (crash_game 5))))
            (obstacles (before_obstacles demo_draws (crash_game 5))))) = []"
    by code_simp
  have d5: "(if 0 < p_shield (player (crash_game 5)) then p_shield (player (crash_game 5)) - 1
             else p_shield (player (crash_game 5))) = 4"
    by code_simp
  have a: "playing (update demo_draws (crash_game 5)) \<and>
      \<not> game_over (update demo_draws (crash_game 5)) \<and>
      obstacles (update demo_draws (crash_game 5)) = [] \<and>
      p_shield (player (before_obstacles demo_draws (crash_game 5))) = 4"
    using C1_obstacle_collision [OF p5, of demo_draws] s5 g5 k5 d5
    unfolding Let_def by simp
  have b: "game_over (update demo_draws (crash_game 0)) \<and>
      \<not> playing (update demo_draws (crash_game 0))"
    using C1_obstacle_collision [OF p0, of demo_draws] s0 h0
    unfolding Let_def by blast
  show ?thesis
    using p5 p0 s5 a b by blast
qed

subsection \<open>C2: the ground\<close>

text \<open>
  Claim C2, as stated, fails: a jump from the ground clears the grounded flag at once,
  while the player is still at the ground until the next update. The program reaches
  such a state at the end of a frame: start the game, then pause and press the jump key
  in the same frame.
\<close>

theorem C2_grounded_after_jump_counterexample:
  "\<not> (p_on_ground (player (game (run ascii_py paused_jump_frames (main_init ascii_py demo_file))))
      \<longleftrightarrow>
      p_y (player (game (run ascii_py paused_jump_frames (main_init ascii_py demo_file)))) =
        of_int (GROUND_Y -
          p_height (player (game (run ascii_py paused_jump_frames (main_init ascii_py demo_file))))))"
  by code_simp

text \<open>
  Claim C2, amended. After every call of \<^verbatim>\<open>Player.update\<close> the player is not below the
  ground, the grounded flag is true exactly when the player is at the ground, and a
  grounded player has velocity 0 and the double jump enabled; the same equivalence holds
  at the end of every update of the playing session. In every state that the program
  reaches, the player is not below the ground, and a grounded player is at the ground.
\<close>

theorem C2_ground_clamp:
  "p_y (Player_update p) \<le> of_int (GROUND_Y - p_height (Player_update p)) \<and>
   (p_on_ground (Player_update p) \<longleftrightarrow>
      p_y (Player_update p) = of_int (GROUND_Y - p_height (Player_update p))) \<and>
   (p_on_ground (Player_update p) \<longrightarrow>
      p_dy (Player_update p) = 0 \<and> p_double_jump_allowed (Player_update p)) \<and>
   (playing g \<longrightarrow>
      (p_on_ground (player (update r g)) \<longleftrightarrow>
         p_y (player (update r g)) = of_int (GROUND_Y - p_height (player (update r g))))) \<and>
   p_y (player (game (run B fs (main_init B f)))) \<le>
     of_int (GROUND_Y - p_height (player (game (run B fs (main_init B f))))) \<and>
   (p_on_ground (player (game (run B fs (main_init B f)))) \<longrightarrow>
      p_y (player (game (run B fs (main_init B f)))) =
        of_int (GROUND_Y - p_height (player (game (run B fs (main_init B f))))))"
proof -
  have t: "playing g \<longrightarrow>
      (p_on_ground (player (update r g)) \<longleftrightarrow>
         p_y (player (update r g)) = of_int (GROUND_Y - p_height (player (update r g))))"
    using Player_update_ground(2) [of "player g"] by (simp add: update_player)
  have "player_inv (player (game (run B fs (main_init B f))))"
    using game_inv_reachable [of B fs f] by (simp add: game_inv_def)
  then show ?thesis
    using Player_update_ground [of p] t unfolding player_inv_def by blast
qed

theorem C2_ground_clamp_witness:
  "p_y (Player_update (Player_jump Player_init)) = 3309 / 10 \<and>
   p_y (Player_update (Player_jump Player_init)) \<le> 346 \<and>
   \<not> p_on_ground (Player_update (Player_jump Player_init)) \<and>
   p_on_ground (Player_update Player_init) \<and>
   p_y (Player_update Player_init) = 346 \<and>
   p_dy (Player_update Player_init) = 0 \<and>
   p_double_jump_allowed (Player_update Player_init)"
proof -
  have h: "p_height (Player_update (Player_jump Player_init)) = 64"
    "p_height (Player_update Player_init) = 64" "GROUND_Y = 410"
    by code_simp+
  have y: "p_y (Player_update (Player_jump Player_init)) = 3309 / 10"
    by code_simp
  have g: "p_on_ground (Player_update Player_init)"
    by code_simp
  have a: "p_y (Player_update (Player_jump Player_init)) \<le> 346 \<and>
      \<not> p_on_ground (Player_update (Player_jump Player_init))"
    using C2_ground_clamp [of "Player_jump Player_init" demo_game demo_draws ascii_py "[]" demo_file] y
    by (simp add: h)
  have b: "p_y (Player_update Player_init) = 346 \<and> p_dy (Player_update Player_init) = 0 \<and>
      p_double_jump_allowed (Player_update Player_init)"
    using C2_ground_clamp [of Player_init demo_game demo_draws ascii_py "[]" demo_file] g
    by (simp add: h)
  show ?thesis using y g a b by blast
qed

subsection \<open>C3: the three cases of a jump\<close>

text \<open>
  Claim C3. A jump from the ground sets the velocity to the jump strength, clears the
  grounded flag and enables the double jump; a jump in the air with the double jump
  enabled sets the velocity to nine tenths of the jump strength and disables the double
  jump; any other jump changes nothing, so a third jump in a row changes nothing. The
  double jump stays as it is through every update that does not land the player, and
  the jump strength is the -16 of the constructor throughout.
\<close>

theorem C3_jump_cases:
  "(p_on_ground p \<longrightarrow>
      Player_jump p =
        p\<lparr>p_dy := of_int (p_jump_strength p), p_on_ground := False,
          p_double_jump_allowed := True\<rparr>) \<and>
   (\<not> p_on_ground p \<and> p_double_jump_allowed p \<longrightarrow>
      Player_jump p =
        p\<lparr>p_dy := of_int (p_jump_strength p) * (9 / 10), p_double_jump_allowed := False\<rparr>) \<and>
   (\<not> p_on_ground p \<and> \<not> p_double_jump_allowed p \<longrightarrow> Player_jump p = p) \<and>
   Player_jump (Player_jump (Player_jump p)) = Player_jump (Player_jump p) \<and>
   (\<not> p_on_ground (Player_update p) \<longrightarrow>
      p_double_jump_allowed (Player_update p) = p_double_jump_allowed p) \<and>
   p_jump_strength (Player_jump p) = p_jump_strength p \<and>
   p_jump_strength (Player_update p) = p_jump_strength p \<and>
   p_jump_strength Player_init = - 16"
proof -
  have a: "Player_jump (Player_jump (Player_jump p)) = Player_jump (Player_jump p)"
    by (simp add: Player_jump_def)
  have b: "\<not> p_on_ground (Player_update p) \<longrightarrow>
      p_double_jump_allowed (Player_update p) = p_double_jump_allowed p"
    by (simp add: Player_update_def Let_def)
  have c: "p_jump_strength (Player_update p) = p_jump_strength p"
    by (simp add: Player_update_def Let_def)
  show ?thesis
    using a b c by (simp add: Player_jump_def Player_init_def)
qed

theorem C3_jump_cases_witness:
  "p_on_ground Player_init \<and>
   p_dy (Player_jump Player_init) = - 16 \<and>
   \<not> p_on_ground (Player_jump Player_init) \<and>
   p_double_jump_allowed (Player_jump Player_init) \<and>
   p_dy (Player_jump (Player_jump Player_init)) = - (72 / 5) \<and>
   \<not> p_double_jump_allowed (Player_jump (Player_jump Player_init)) \<and>
   Player_jump (Player_jump (Player_jump Player_init)) = Player_jump (Player_jump Player_init)"
proof -
  have g: "p_on_ground Player_init" "p_jump_strength Player_init = - 16"
    by code_simp+
  have j1: "Player_jump Player_init =
      Player_init\<lparr>p_dy := of_int (p_jump_strength Player_init), p_on_ground := False,
        p_double_jump_allowed := True\<rparr>"
    using C3_jump_cases [of Player_init] g by blast
  have s1: "\<not> p_on_ground (Player_jump Player_init) \<and>
      p_double_jump_allowed (Player_jump Player_init)"
    by (simp add: j1)
  have j2: "Player_jump (Player_jump Player_init) =
      (Player_jump Player_init)\<lparr>p_dy := of_int (p_jump_strength (Player_jump Player_init)) * (9 / 10),
        p_double_jump_allowed := False\<rparr>"
    using C3_jump_cases [of "Player_jump Player_init"] s1 by blast
  have j3: "Player_jump (Player_jump (Player_jump Player_init)) =
      Player_jump (Player_jump Player_init)"
    using C3_jump_cases [of Player_init] by blast
  show ?thesis
    using g s1 j3 by (simp add: j2) (simp add: j1 g)
qed

subsection \<open>C10: the horizontal place of the player\<close>

text \<open>
  Claim C10. The player is created at x = 120; the player's update, a jump, the
  session's update and a reset leave x at that value, and so x is 120 in every state
  that the program reaches.
\<close>

theorem C10_player_x_constant:
  "p_x Player_init = 120 \<and>
   p_x (Player_update p) = p_x p \<and>
   p_x (Player_jump p) = p_x p \<and>
   p_x (player (update r g)) = p_x (player g) \<and>
   p_x (player (reset g)) = 120 \<and>
   p_x (player (game (run B fs (main_init B f)))) = 120"
proof -
  have u: "p_x (player (update r g)) = p_x (player g)"
  proof (cases "playing g")
    case True
    then show ?thesis by (simp add: update_player Player_update_x)
  next
    case False
    then show ?thesis by (simp add: update_def)
  qed
  have "player_inv (player (game (run B fs (main_init B f))))"
    using game_inv_reachable [of B fs f] by (simp add: game_inv_def)
  then have i: "p_x (player (game (run B fs (main_init B f)))) = 120"
    by (simp add: player_inv_def PLAYER_X_def)
  show ?thesis
    using u i by (simp add: Player_init_def PLAYER_X_def Player_update_x Player_jump_def reset_def)
qed

theorem C10_player_x_constant_witness:
  "p_x (player (game (run ascii_py paused_jump_frames (main_init ascii_py demo_file)))) = 120 \<and>
   p_x (player (update demo_draws (crash_game 5))) = 120"
proof -
  have "p_x (player (crash_game 5)) = 120" by code_simp
  then show ?thesis
    using C10_player_x_constant [of Player_init demo_draws "crash_game 5" ascii_py
        paused_jump_frames demo_file]
    by simp
qed

section \<open>The collections after an update\<close>

lemma int_trunc_nonneg: "0 \<le> s \<Longrightarrow> 0 \<le> int_trunc s"
  by (simp add: int_trunc_def)

lemma obstacle_moved_simps:
  "rect_x (ob_rect (obstacle_moved s ob)) = rect_x (ob_rect ob) - int_trunc s"
  "rect_right (ob_rect (obstacle_moved s ob)) = rect_right (ob_rect ob) - int_trunc s"
  "ob_speed (obstacle_moved s ob) = s"
  "ob_passed (obstacle_moved s ob) = ob_passed ob"
  by (simp_all add: obstacle_moved_def Obstacle_update_def rect_right_def)

lemma coin_moved_simps:
  "c_x (coin_moved s c) = c_x c - int_trunc s"
  "rect_x (c_rect (coin_moved s c)) = c_x c - int_trunc s - c_r c"
  "c_speed (coin_moved s c) = s"
  by (simp_all add: coin_moved_def Coin_update_def set_topleft_def Let_def)

lemma powerup_moved_simps:
  "pu_x (powerup_moved s pu) = pu_x pu - int_trunc s"
  "rect_x (pu_rect (powerup_moved s pu)) = pu_x pu - int_trunc s - pu_r pu"
  "pu_speed (powerup_moved s pu) = s"
  "pu_kind (powerup_moved s pu) = pu_kind pu"
  by (simp_all add: powerup_moved_def PowerUp_update_def set_topleft_def Let_def)

lemma obstacle_scored_simps:
  "ob_rect (obstacle_scored px ob) = ob_rect ob"
  "ob_speed (obstacle_scored px ob) = ob_speed ob"
  "ob_passed (obstacle_scored px ob) = (ob_passed ob \<or> rect_right (ob_rect ob) < px)"
  by (auto simp add: obstacle_scored_def obstacle_awarded_def)

lemma update_obstacles:
  assumes "playing g"
  shows "obstacles (update r g) =
     map (obstacle_scored (p_x (player g)))
       (filter (\<lambda>ob. \<not> obstacle_removed (before_obstacles r g) ob)
          (map (obstacle_moved (scroll_speed (update r g))) (obstacles (before_obstacles r g))))"
  using assms
  by (simp add: update_scroll_speed)
    (simp add: update_unfold stage_frames obstacles_stage_obstacles Player_update_x)

lemma coins_stage_coins:
  "coins (coins_stage g) =
     filter (\<lambda>c. \<not> (c_x c < - 50 \<or>
                    (colliderect (c_rect c) (p_rect (player g)) \<and> \<not> c_collected c)))
       (map (coin_moved (scroll_speed g)) (coins g))"
  by (simp add: coins_stage_def coins_loop_coins)

lemma powerups_stage_powerups:
  "powerups (powerups_stage g) =
     filter (\<lambda>pu. \<not> (pu_x pu < - 50 \<or> colliderect (pu_rect pu) (p_rect (player g))))
       (map (powerup_moved (scroll_speed g)) (powerups g))"
  by (simp add: powerups_stage_def powerups_loop_powerups)

lemma powerups_stage_shield:
  "p_shield (player (powerups_stage g)) =
     (if \<exists>pu\<in>set (powerups g).
           colliderect (pu_rect (powerup_moved (scroll_speed g) pu)) (p_rect (player g)) \<and>
           pu_kind pu = ''shield''
      then FPS * 3 else p_shield (player g))"
  by (auto simp add: powerups_stage_def powerups_loop_shield)

lemma update_coins:
  assumes "playing g"
  shows "coins (update r g) =
     filter (\<lambda>c. \<not> (c_x c < - 50 \<or>
                    (colliderect (c_rect c) (p_rect (player (before_obstacles r g))) \<and>
                     \<not> c_collected c)))
       (map (coin_moved (scroll_speed (update r g))) (coins (before_obstacles r g)))"
  using assms
  by (simp add: update_scroll_speed)
    (simp add: update_unfold stage_frames coins_stage_coins)

lemma update_powerups:
  assumes "playing g"
  shows "powerups (update r g) =
     filter (\<lambda>pu. \<not> (pu_x pu < - 50 \<or>
                     colliderect (pu_rect pu) (p_rect (player (before_obstacles r g)))))
       (map (powerup_moved (scroll_speed (update r g))) (powerups (before_obstacles r g)))"
  using assms
  by (simp add: update_scroll_speed)
    (simp add: update_unfold stage_frames powerups_stage_powerups)

section \<open>The passing flag\<close>

lemma obstacle_inv_step:
  "0 \<le> s \<Longrightarrow> obstacle_inv px ob \<Longrightarrow> obstacle_inv px (obstacle_scored px (obstacle_moved s ob))"
  using int_trunc_nonneg [of s]
  by (auto simp add: obstacle_inv_def obstacle_scored_simps obstacle_moved_simps)

lemma obstacle_first_crossing:
  "0 \<le> s \<Longrightarrow> obstacle_inv px ob \<Longrightarrow>
   obstacle_awarded px (obstacle_moved s ob) \<longleftrightarrow>
     (\<not> rect_right (ob_rect ob) < px \<and> rect_right (ob_rect (obstacle_moved s ob)) < px)"
  using int_trunc_nonneg [of s]
  by (auto simp add: obstacle_inv_def obstacle_awarded_def obstacle_moved_simps)

lemma obstacle_inv_init: "px \<le> a + wd \<Longrightarrow> obstacle_inv px (Obstacle_init a wd ht s)"
  by (simp add: obstacle_inv_def Obstacle_init_def Rect_init_def rect_right_def)

lemma before_obstacles_obstacles:
  "obstacles (before_obstacles r g) =
     obstacles g @
       (if max 18 (70 - int_trunc ((scroll_speed g + difficulty_increment g) * 3)) < spawn_timer g + 1
        then [Obstacle_init (WIDTH + rnd_ob_dx r) (rnd_ob_w r) (rnd_ob_h r)
                (scroll_speed g + difficulty_increment g)]
        else [])"
  by (simp add: before_obstacles_def player_stage_def spawn_stage_def spawn_obstacle_def
      spawn_coin_def spawn_powerup_def difficulty_stage_def Let_def)

lemma session_inv_update:
  assumes "session_inv g" and "draws_ok r"
  shows "session_inv (update r g)"
proof (cases "playing g")
  case False
  then show ?thesis using assms by (simp add: update_def)
next
  case True
  have gi: "game_inv g" and oi: "list_all (obstacle_inv PLAYER_X) (obstacles g)"
    using assms(1) by (simp_all add: session_inv_def)
  have px: "p_x (player g) = PLAYER_X"
    using gi by (simp add: game_inv_def player_inv_def)
  have sp: "0 \<le> scroll_speed (update r g)"
    using game_inv_update [OF gi, of r] by (simp add: game_inv_def)
  have new: "obstacle_inv PLAYER_X
      (Obstacle_init (WIDTH + rnd_ob_dx r) (rnd_ob_w r) (rnd_ob_h r)
         (scroll_speed g + difficulty_increment g))"
    using assms(2) by (intro obstacle_inv_init) (simp add: draws_ok_def PLAYER_X_def WIDTH_def)
  have b: "list_all (obstacle_inv PLAYER_X) (obstacles (before_obstacles r g))"
    using oi new by (simp add: before_obstacles_obstacles)
  have "list_all (obstacle_inv PLAYER_X) (obstacles (update r g))"
    using b sp
    by (auto simp add: update_obstacles [OF True] px list_all_iff obstacle_inv_step)
  then show ?thesis
    using game_inv_update [OF gi, of r] by (simp add: session_inv_def)
qed

lemma session_inv_handle_event:
  assumes "session_inv (game s)"
  shows "session_inv (game (handle_event e s))"
proof -
  have gi: "game_inv (game (handle_event e s))"
    using assms by (simp add: session_inv_def game_inv_handle_event)
  have "list_all (obstacle_inv PLAYER_X) (obstacles (game (handle_event e s)))"
  proof (cases e)
    case QUIT
    then show ?thesis using assms by (simp add: session_inv_def)
  next
    case (KEYDOWN k)
    then show ?thesis using assms by (simp add: session_inv_def reset_def Let_def)
  next
    case OTHER_EVENT
    then show ?thesis using assms by (simp add: session_inv_def)
  qed
  then show ?thesis using gi by (simp add: session_inv_def)
qed

lemma session_inv_events:
  "session_inv (game s) \<Longrightarrow> session_inv (game (fold handle_event evs s))"
  by (induction evs arbitrary: s) (simp_all add: session_inv_handle_event)

lemma session_inv_game_over_screen:
  "session_inv g \<Longrightarrow> session_inv (fst (game_over_screen B g f))"
  by (simp add: game_over_screen_def session_inv_def game_inv_def)

lemma session_inv_frame:
  assumes "session_inv (game s)" and "draws_ok r"
  shows "session_inv (game (frame B evs r s))"
proof -
  let ?s1 = "fold handle_event evs s"
  have e: "session_inv (game ?s1)" using assms(1) by (rule session_inv_events)
  have u: "session_inv (update r (game ?s1))" using e assms(2) by (rule session_inv_update)
  have o1: "session_inv (fst (game_over_screen B (update r (game ?s1)) (store ?s1)))"
    using u by (rule session_inv_game_over_screen)
  have o2: "session_inv (fst (game_over_screen B (game ?s1) (store ?s1)))"
    using e by (rule session_inv_game_over_screen)
  show ?thesis
    using e u o1 o2 by (simp add: frame_game Let_def)
qed

lemma session_inv_run:
  "session_inv (game s) \<Longrightarrow> frames_ok fs \<Longrightarrow> session_inv (game (run B fs s))"
proof (induction fs arbitrary: s)
  case Nil
  then show ?case by simp
next
  case (Cons fr fs)
  obtain evs r where fr: "fr = (evs, r)" by (cases fr)
  have d: "draws_ok r" and rest: "frames_ok fs"
    using Cons.prems(2) by (simp_all add: frames_ok_def fr)
  have "session_inv (game (frame B evs r s))"
    using Cons.prems(1) d by (rule session_inv_frame)
  then show ?case
    using Cons.prems(1) rest by (simp add: fr Cons.IH)
qed

lemma session_inv_reachable:
  "frames_ok fs \<Longrightarrow> session_inv (game (run B fs (main_init B f)))"
  by (rule session_inv_run)
    (simp_all add: main_init_def session_inv_def game_inv_init, simp add: ItrikSurfers_init_def)

subsection \<open>C4: the award for passing an obstacle\<close>

text \<open>
  Claim C4. A visit of the obstacle loop adds 5 to the score exactly when the obstacle
  is not yet marked as passed and its right edge, after the move, is strictly left of
  the player's x, and it adds nothing for an obstacle already marked; the mark is set
  with the award and never cleared. Over the whole loop the score grows by 5 for each
  such obstacle. When the mark agrees with the place of the obstacle (set exactly when
  the right edge is left of the player) and the speed is not negative, the award falls
  on the tick in which the right edge crosses the player's x, and the mark agrees
  again afterwards. The agreement holds for all obstacles in every state that the
  program reaches with random draws in their ranges.
\<close>

theorem C4_passing_award:
  "score (obstacle_visit ob g) =
     score g +
       (if \<not> ob_passed ob \<and>
           rect_right (ob_rect (obstacle_moved (scroll_speed g) ob)) < p_x (player g)
        then 5 else 0) \<and>
   (ob_passed ob \<longrightarrow> score (obstacle_visit ob g) = score g) \<and>
   ob_passed (obstacle_scored px (obstacle_moved s ob)) =
     (ob_passed ob \<or> rect_right (ob_rect (obstacle_moved s ob)) < px) \<and>
   score (obstacles_stage g) =
     score g +
       5 * int (length (filter (obstacle_awarded (p_x (player g)))
                  (map (obstacle_moved (scroll_speed g)) (obstacles g)))) \<and>
   obstacles (obstacles_stage g) =
     map (obstacle_scored (p_x (player g)))
       (filter (\<lambda>ob. \<not> obstacle_removed g ob)
          (map (obstacle_moved (scroll_speed g)) (obstacles g))) \<and>
   (0 \<le> s \<and> obstacle_inv px ob \<longrightarrow>
      obstacle_inv px (obstacle_scored px (obstacle_moved s ob)) \<and>
      (obstacle_awarded px (obstacle_moved s ob) \<longleftrightarrow>
         \<not> rect_right (ob_rect ob) < px \<and> rect_right (ob_rect (obstacle_moved s ob)) < px)) \<and>
   (frames_ok fs \<longrightarrow>
      list_all (obstacle_inv 120) (obstacles (game (run B fs (main_init B f)))) \<and>
      p_x (player (game (run B fs (main_init B f)))) = 120 \<and>
      0 \<le> scroll_speed (game (run B fs (main_init B f))))"
proof -
  have a: "score (obstacle_visit ob g) =
     score g +
       (if \<not> ob_passed ob \<and>
           rect_right (ob_rect (obstacle_moved (scroll_speed g) ob)) < p_x (player g)
        then 5 else 0)"
    by (simp add: obstacle_visit_score obstacle_awarded_def obstacle_moved_simps)
  have b: "ob_passed ob \<longrightarrow> score (obstacle_visit ob g) = score g"
    by (simp add: a)
  have c: "ob_passed (obstacle_scored px (obstacle_moved s ob)) =
     (ob_passed ob \<or> rect_right (ob_rect (obstacle_moved s ob)) < px)"
    by (simp add: obstacle_scored_simps obstacle_moved_simps)
  have d: "0 \<le> s \<and> obstacle_inv px ob \<longrightarrow>
      obstacle_inv px (obstacle_scored px (obstacle_moved s ob)) \<and>
      (obstacle_awarded px (obstacle_moved s ob) \<longleftrightarrow>
         \<not> rect_right (ob_rect ob) < px \<and> rect_right (ob_rect (obstacle_moved s ob)) < px)"
    using obstacle_inv_step [of s px ob] obstacle_first_crossing [of s px ob] by blast
  have e: "frames_ok fs \<longrightarrow>
      list_all (obstacle_inv 120) (obstacles (game (run B fs (main_init B f)))) \<and>
      p_x (player (game (run B fs (main_init B f)))) = 120 \<and>
      0 \<le> scroll_speed (game (run B fs (main_init B f)))"
    using session_inv_reachable [of fs B f]
    by (auto simp add: session_inv_def game_inv_def player_inv_def PLAYER_X_def)
  show ?thesis
    using a b c d e obstacles_stage_score [of g] obstacles_stage_obstacles [of g] by blast
qed

theorem C4_passing_award_witness:
  "\<not> ob_passed (Obstacle_init 72 50 60 6) \<and>
   obstacle_inv 120 (Obstacle_init 72 50 60 6) \<and>
   frames_ok paused_jump_frames \<and>
   score (obstacle_visit (Obstacle_init 72 50 60 6) passing_game) = score passing_game + 5 \<and>
   ob_passed (obstacle_scored 120 (obstacle_moved 6 (Obstacle_init 72 50 60 6))) \<and>
   obstacle_awarded 120 (obstacle_moved 6 (Obstacle_init 72 50 60 6)) \<and>
   score (obstacle_visit (obstacle_scored 120 (obstacle_moved 6 (Obstacle_init 72 50 60 6)))
            passing_game) = score passing_game \<and>
   score (obstacles_stage passing_game) = 5 \<and>
   list_all (obstacle_inv 120)
     (obstacles (game (run ascii_py paused_jump_frames (main_init ascii_py demo_file))))"
proof -
  let ?ob = "Obstacle_init 72 50 60 6"
  let ?ob1 = "obstacle_scored 120 (obstacle_moved 6 ?ob)"
  have h1: "\<not> ob_passed ?ob" "obstacle_inv 120 ?ob" "(0::real) \<le> 6"
    "frames_ok paused_jump_frames"
    by code_simp+
  have e1: "\<not> rect_right (ob_rect ?ob) < 120 \<and> rect_right (ob_rect (obstacle_moved 6 ?ob)) < 120"
    by code_simp
  have e2: "rect_right (ob_rect (obstacle_moved (scroll_speed passing_game) ?ob))
      < p_x (player passing_game)"
    by code_simp
  have e3: "score passing_game +
      5 * int (length (filter (obstacle_awarded (p_x (player passing_game)))
                 (map (obstacle_moved (scroll_speed passing_game)) (obstacles passing_game)))) = 5"
    by code_simp
  note t1 = C4_passing_award [of ?ob passing_game 120 6 paused_jump_frames ascii_py demo_file]
  note t2 = C4_passing_award [of ?ob1 passing_game 120 6 paused_jump_frames ascii_py demo_file]
  have a: "score (obstacle_visit ?ob passing_game) = score passing_game + 5"
    using t1 h1 e2 by simp
  have b: "ob_passed ?ob1" "obstacle_awarded 120 (obstacle_moved 6 ?ob)"
    using t1 h1 e1 by blast+
  have c: "score (obstacle_visit ?ob1 passing_game) = score passing_game"
    using t2 b(1) by blast
  have d: "score (obstacles_stage passing_game) = 5"
    using t1 e3 by simp
  have e: "list_all (obstacle_inv 120)
     (obstacles (game (run ascii_py paused_jump_frames (main_init ascii_py demo_file))))"
    using t1 h1(4) by blast
  show ?thesis
    using h1 a b c d e by blast
qed

subsection \<open>C5: picking up a power-up\<close>

text \<open>
  Claim C5. In a tick of the playing session, \<open>g4\<close> is the state when the power-up
  loop starts. If a power-up of kind shield, after its move, overlaps the player's box,
  the update ends with the shield timer at 180, which is \<open>FPS * 3\<close>; without such a
  power-up the loop leaves the timer alone. Whatever the kind, the collection ends as
  exactly the moved power-ups that are neither off the screen nor overlapping the
  player, so none that is left overlaps the player.
\<close>

theorem C5_powerup_pickup:
  assumes "playing g"
  shows "(let g4 = before_powerups r g; g2 = update r g
          in ((\<exists>pu\<in>set (powerups g4).
                 colliderect (pu_rect (powerup_moved (scroll_speed g4) pu)) (p_rect (player g4)) \<and>
                 pu_kind pu = ''shield'') \<longrightarrow> p_shield (player g2) = 180) \<and>
             (\<not> (\<exists>pu\<in>set (powerups g4).
                 colliderect (pu_rect (powerup_moved (scroll_speed g4) pu)) (p_rect (player g4)) \<and>
                 pu_kind pu = ''shield'') \<longrightarrow> p_shield (player g2) = p_shield (player g4)) \<and>
             powerups g2 =
               filter (\<lambda>pu. \<not> pu_x pu < - 50 \<and> \<not> colliderect (pu_rect pu) (p_rect (player g4)))
                 (map (powerup_moved (scroll_speed g4)) (powerups g4)) \<and>
             (\<forall>pu\<in>set (powerups g2). \<not> colliderect (pu_rect pu) (p_rect (player g2))) \<and>
             FPS * 3 = 180)"
proof -
  let ?g4 = "before_powerups r g"
  have u: "update r g = bonus_stage (powerups_stage ?g4)"
    using assms by (simp add: update_def before_bonus_def)
  have sh: "p_shield (player (update r g)) =
     (if \<exists>pu\<in>set (powerups ?g4).
           colliderect (pu_rect (powerup_moved (scroll_speed ?g4) pu)) (p_rect (player ?g4)) \<and>
           pu_kind pu = ''shield''
      then FPS * 3 else p_shield (player ?g4))"
    by (auto simp add: u bonus_stage_frame powerups_stage_shield)
  have ps: "powerups (update r g) =
      filter (\<lambda>pu. \<not> pu_x pu < - 50 \<and> \<not> colliderect (pu_rect pu) (p_rect (player ?g4)))
        (map (powerup_moved (scroll_speed ?g4)) (powerups ?g4))"
    by (simp add: u bonus_stage_frame powerups_stage_powerups)
  have pr: "p_rect (player (update r g)) = p_rect (player ?g4)"
    by (simp add: u bonus_stage_frame powerups_stage_frame)
  have no: "\<forall>pu\<in>set (powerups (update r g)).
      \<not> colliderect (pu_rect pu) (p_rect (player (update r g)))"
    by (simp add: ps pr)
  have f: "FPS * 3 = 180" by (simp add: FPS_def)
  have sh1: "(\<exists>pu\<in>set (powerups ?g4).
           colliderect (pu_rect (powerup_moved (scroll_speed ?g4) pu)) (p_rect (player ?g4)) \<and>
           pu_kind pu = ''shield'') \<longrightarrow> p_shield (player (update r g)) = 180"
    using sh f by simp
  have sh2: "\<not> (\<exists>pu\<in>set (powerups ?g4).
           colliderect (pu_rect (powerup_moved (scroll_speed ?g4) pu)) (p_rect (player ?g4)) \<and>
           pu_kind pu = ''shield'') \<longrightarrow> p_shield (player (update r g)) = p_shield (player ?g4)"
    using sh by (auto split: if_splits)
  show ?thesis
    unfolding Let_def using sh1 sh2 ps no f by blast
qed

theorem C5_powerup_pickup_witness:
  "playing (pickup_game ''shield'') \<and>
   p_shield (player (before_powerups demo_draws (pickup_game ''shield''))) = 0 \<and>
   p_shield (player (update demo_draws (pickup_game ''shield''))) = 180 \<and>
   powerups (update demo_draws (pickup_game ''shield'')) = [] \<and>
   playing (pickup_game ''magnet'') \<and>
   p_shield (player (update demo_draws (pickup_game ''magnet''))) = 0 \<and>
   powerups (update demo_draws (pickup_game ''magnet'')) = []"
proof -
  have p: "playing (pickup_game ''shield'')" "playing (pickup_game ''magnet'')"
    by code_simp+
  have z: "p_shield (player (before_powerups demo_draws (pickup_game ''shield''))) = 0"
    "p_shield (player (before_powerups demo_draws (pickup_game ''magnet''))) = 0"
    by code_simp+
  have h: "\<exists>pu\<in>set (powerups (before_powerups demo_draws (pickup_game ''shield''))).
      colliderect
        (pu_rect (powerup_moved
           (scroll_speed (before_powerups demo_draws (pickup_game ''shield''))) pu))
        (p_rect (player (before_powerups demo_draws (pickup_game ''shield'')))) \<and>
      pu_kind pu = ''shield''"
    by code_simp
  have n: "\<not> (\<exists>pu\<in>set (powerups (before_powerups demo_draws (pickup_game ''magnet''))).
      colliderect
        (pu_rect (powerup_moved
           (scroll_speed (before_powerups demo_draws (pickup_game ''magnet''))) pu))
        (p_rect (player (before_powerups demo_draws (pickup_game ''magnet'')))) \<and>
      pu_kind pu = ''shield'')"
    by code_simp
  have k: "filter (\<lambda>pu. \<not> pu_x pu < - 50 \<and>
         \<not> colliderect (pu_rect pu)
             (p_rect (player (before_powerups demo_draws (pickup_game ''shield'')))))
       (map (powerup_moved (scroll_speed (before_powerups demo_draws (pickup_game ''shield''))))
          (powerups (before_powerups demo_draws (pickup_game ''shield'')))) = []"
    "filter (\<lambda>pu. \<not> pu_x pu < - 50 \<and>
         \<not> colliderect (pu_rect pu)
             (p_rect (player (before_powerups demo_draws (pickup_game ''magnet'')))))
       (map (powerup_moved (scroll_speed (before_powerups demo_draws (pickup_game ''magnet''))))
          (powerups (before_powerups demo_draws (pickup_game ''magnet'')))) = []"
    by code_simp+
  have a: "p_shield (player (update demo_draws (pickup_game ''shield''))) = 180 \<and>
      powerups (update demo_draws (pickup_game ''shield'')) = []"
    using C5_powerup_pickup [OF p(1), of demo_draws] h k(1) unfolding Let_def by simp
  have b: "p_shield (player (update demo_draws (pickup_game ''magnet''))) = 0 \<and>
      powerups (update demo_draws (pickup_game ''magnet'')) = []"
    using C5_powerup_pickup [OF p(2), of demo_draws] n k(2) z(2) unfolding Let_def by simp
  show ?thesis
    using p z(1) a b by blast
qed

subsection \<open>C6: the move of the scrolling objects\<close>

text \<open>
  Claim C6, as stated, fails: the objects move by the truncated speed, not by the
  rounded speed. At a scroll speed of 6.6 the update raises the speed to 6.6005 and an
  obstacle at x = 500 moves to 494, where rounding would give 493.
\<close>

theorem C6_rounded_speed_counterexample:
  "obstacles fast_game = [Obstacle_init 500 50 60 (33 / 5)] \<and>
   map (rect_x \<circ> ob_rect) (obstacles (update demo_draws fast_game)) = [494] \<and>
   rect_x (ob_rect (Obstacle_init 500 50 60 (33 / 5))) -
     round (scroll_speed (update demo_draws fast_game)) = 493"
  by code_simp

text \<open>
  Claim C6, amended. An update of the playing session raises the scroll speed by the
  increment, and each of the three collections ends as the objects it held when the
  obstacle loop started (those spawned in this tick among them), each with the new
  scroll speed written into it and moved left by that speed truncated to an integer,
  less the objects that the loop removed.
\<close>

theorem C6_move_by_truncated_speed:
  assumes "playing g"
  shows "scroll_speed (update r g) = scroll_speed g + difficulty_increment g \<and>
   obstacles (update r g) =
     map (obstacle_scored (p_x (player g)))
       (filter (\<lambda>ob. \<not> obstacle_removed (before_obstacles r g) ob)
          (map (obstacle_moved (scroll_speed (update r g))) (obstacles (before_obstacles r g)))) \<and>
   coins (update r g) =
     filter (\<lambda>c. \<not> (c_x c < - 50 \<or>
                    (colliderect (c_rect c) (p_rect (player (before_obstacles r g))) \<and>
                     \<not> c_collected c)))
       (map (coin_moved (scroll_speed (update r g))) (coins (before_obstacles r g))) \<and>
   powerups (update r g) =
     filter (\<lambda>pu. \<not> (pu_x pu < - 50 \<or>
                     colliderect (pu_rect pu) (p_rect (player (before_obstacles r g)))))
       (map (powerup_moved (scroll_speed (update r g))) (powerups (before_obstacles r g))) \<and>
   rect_x (ob_rect (obstacle_scored px (obstacle_moved s ob))) =
     rect_x (ob_rect ob) - int_trunc s \<and>
   ob_speed (obstacle_scored px (obstacle_moved s ob)) = s \<and>
   c_x (coin_moved s c) = c_x c - int_trunc s \<and>
   rect_x (c_rect (coin_moved s c)) = c_x c - int_trunc s - c_r c \<and>
   c_speed (coin_moved s c) = s \<and>
   pu_x (powerup_moved s pu) = pu_x pu - int_trunc s \<and>
   rect_x (pu_rect (powerup_moved s pu)) = pu_x pu - int_trunc s - pu_r pu \<and>
   pu_speed (powerup_moved s pu) = s"
  using update_scroll_speed [OF assms, of r] update_obstacles [OF assms, of r]
    update_coins [OF assms, of r] update_powerups [OF assms, of r]
  by (simp add: obstacle_scored_simps obstacle_moved_simps coin_moved_simps powerup_moved_simps)

theorem C6_move_by_truncated_speed_witness:
  "playing fast_game \<and>
   scroll_speed (update demo_draws fast_game) = 13201 / 2000 \<and>
   int_trunc (13201 / 2000) = 6 \<and>
   map (rect_x \<circ> ob_rect) (obstacles (update demo_draws fast_game)) = [494] \<and>
   map ob_speed (obstacles (update demo_draws fast_game)) = [13201 / 2000] \<and>
   map c_x (coins (update demo_draws fast_game)) = [594] \<and>
   map pu_x (powerups (update demo_draws fast_game)) = [694]"
proof -
  have p: "playing fast_game" by code_simp
  have i: "int_trunc (13201 / 2000) = 6" by code_simp
  have s: "scroll_speed fast_game + difficulty_increment fast_game = 13201 / 2000"
    by code_simp
  note t = C6_move_by_truncated_speed [OF p, of demo_draws]
  have sp: "scroll_speed (update demo_draws fast_game) = 13201 / 2000"
    using t s by simp
  have o: "map (rect_x \<circ> ob_rect)
      (map (obstacle_scored (p_x (player fast_game)))
         (filter (\<lambda>ob. \<not> obstacle_removed (before_obstacles demo_draws fast_game) ob)
            (map (obstacle_moved (13201 / 2000))
               (obstacles (before_obstacles demo_draws fast_game))))) = [494]"
    "map ob_speed
      (map (obstacle_scored (p_x (player fast_game)))
         (filter (\<lambda>ob. \<not> obstacle_removed (before_obstacles demo_draws fast_game) ob)
            (map (obstacle_moved (13201 / 2000))
               (obstacles (before_obstacles demo_draws fast_game))))) = [13201 / 2000]"
    by code_simp+
  have c: "map c_x
      (filter (\<lambda>c. \<not> (c_x c < - 50 \<or>
                     (colliderect (c_rect c) (p_rect (player (before_obstacles demo_draws fast_game))) \<and>
                      \<not> c_collected c)))
         (map (coin_moved (13201 / 2000)) (coins (before_obstacles demo_draws fast_game)))) = [594]"
    by code_simp
  have u: "map pu_x
      (filter (\<lambda>pu. \<not> (pu_x pu < - 50 \<or>
                      colliderect (pu_rect pu) (p_rect (player (before_obstacles demo_draws fast_game)))))
         (map (powerup_moved (13201 / 2000)) (powerups (before_obstacles demo_draws fast_game)))) = [694]"
    by code_simp
  have a: "map (rect_x \<circ> ob_rect) (obstacles (update demo_draws fast_game)) = [494]"
    "map ob_speed (obstacles (update demo_draws fast_game)) = [13201 / 2000]"
    "map c_x (coins (update demo_draws fast_game)) = [594]"
    "map pu_x (powerups (update demo_draws fast_game)) = [694]"
    using t o c u unfolding sp by simp_all
  show ?thesis
    using p i sp a by blast
qed

section \<open>Frames of the main loop\<close>

lemma handle_event_store: "store (handle_event e s) = store s"
  by (cases e) (simp_all add: Let_def)

lemma events_store: "store (fold handle_event evs s) = store s"
  by (induction evs arbitrary: s) (simp_all add: handle_event_store)

lemma frame_store:
  "store (frame B evs r s) =
     (let s1 = fold handle_event evs s;
          g1 = (if playing (game s1) then update r (game s1) else game s1)
      in if \<not> in_start s1 \<and> \<not> paused s1 \<and> game_over g1 \<and> highscore g1 < score g1
         then save_highscore B (score g1) (store s) else store s)"
  by (simp add: frame_def Let_def game_over_screen_def events_store)

lemma frame_modes:
  "in_start (frame B evs r s) = in_start (fold handle_event evs s)"
  "paused (frame B evs r s) = paused (fold handle_event evs s)"
  by (simp_all add: frame_def Let_def case_prod_beta)

lemma handle_event_speed:
  "e \<noteq> KEYDOWN K_r \<Longrightarrow>
   scroll_speed (game (handle_event e s)) = scroll_speed (game s) \<and>
   score (game (handle_event e s)) = score (game s) \<and>
   highscore (game (handle_event e s)) = highscore (game s) \<and>
   playing (game (handle_event e s)) = (playing (game s) \<or> (in_start s \<and> e = KEYDOWN K_SPACE)) \<and>
   game_over (game (handle_event e s)) = game_over (game s)"
  by (cases e) (auto simp add: Let_def)

lemma events_speed:
  "KEYDOWN K_r \<notin> set evs \<Longrightarrow>
   scroll_speed (game (fold handle_event evs s)) = scroll_speed (game s) \<and>
   score (game (fold handle_event evs s)) = score (game s) \<and>
   highscore (game (fold handle_event evs s)) = highscore (game s) \<and>
   game_over (game (fold handle_event evs s)) = game_over (game s) \<and>
   (playing (game s) \<longrightarrow> playing (game (fold handle_event evs s)))"
proof (induction evs arbitrary: s)
  case Nil
  show ?case by simp
next
  case (Cons e evs)
  have e: "e \<noteq> KEYDOWN K_r" and r: "KEYDOWN K_r \<notin> set evs"
    using Cons.prems by auto
  show ?case
    using Cons.IH [OF r, of "handle_event e s"] handle_event_speed [OF e, of s]
    by simp
qed

lemma handle_event_playing:
  "playing (game s) \<and> \<not> in_start s \<Longrightarrow>
   playing (game (handle_event e s)) \<and> \<not> in_start (handle_event e s) \<and>
   scroll_speed (game (handle_event e s)) = scroll_speed (game s)"
  by (cases e) (simp_all add: Let_def)

lemma events_playing:
  "playing (game s) \<and> \<not> in_start s \<Longrightarrow>
   playing (game (fold handle_event evs s)) \<and> \<not> in_start (fold handle_event evs s) \<and>
   scroll_speed (game (fold handle_event evs s)) = scroll_speed (game s)"
proof (induction evs arbitrary: s)
  case Nil
  then show ?case by simp
next
  case (Cons e evs)
  show ?case
    using Cons.IH [of "handle_event e s"] handle_event_playing [OF Cons.prems, of e]
    by simp
qed

lemma frame_speed:
  "scroll_speed (game (frame B evs r s)) =
     (let s1 = fold handle_event evs s
      in if in_start s1 \<or> paused s1 \<or> \<not> playing (game s1) then scroll_speed (game s1)
         else scroll_speed (update r (game s1)))"
  by (simp add: frame_game Let_def game_over_screen_def)

lemma update_speed_mono:
  "playing g \<Longrightarrow> 0 \<le> difficulty_increment g \<Longrightarrow> scroll_speed g \<le> scroll_speed (update r g)"
  by (simp add: update_scroll_speed)

lemma frame_speed_mono:
  assumes "game_inv (game s)"
    and "scroll_speed (game (fold handle_event evs s)) = scroll_speed (game s)"
  shows "scroll_speed (game s) \<le> scroll_speed (game (frame B evs r s))"
proof -
  let ?s1 = "fold handle_event evs s"
  have "game_inv (game ?s1)" using assms(1) by (rule game_inv_events)
  then have i: "0 \<le> difficulty_increment (game ?s1)" by (simp add: game_inv_def)
  have "playing (game ?s1) \<Longrightarrow> scroll_speed (game ?s1) \<le> scroll_speed (update r (game ?s1))"
    using i by (simp add: update_speed_mono)
  then show ?thesis
    using assms(2) by (simp add: frame_speed Let_def)
qed

lemma int_trunc_small: "- 250 < x \<Longrightarrow> x < 250 \<Longrightarrow> int_trunc (x / 250) = 0"
  by (simp add: int_trunc_def floor_eq_iff ceiling_eq_iff)

subsection \<open>C7: the scroll speed from tick to tick\<close>

text \<open>
  Claim C7. An update of the playing session does not lower the scroll speed (the
  increment is not negative), and an update of a session that is not playing changes
  nothing at all. In the main loop, take a frame that has no restart key or starts in
  play: if it ends on the start screen, paused or not playing, it leaves the scroll
  speed as it was; and in a state where the session invariant holds, it does not lower
  the scroll speed. The invariant holds in every state that the program reaches. (The
  restart key, on the game-over screen, starts a new session at the initial speed.)
\<close>

theorem C7_scroll_speed_monotone:
  "(playing g \<and> 0 \<le> difficulty_increment g \<longrightarrow> scroll_speed g \<le> scroll_speed (update r g)) \<and>
   (playing g \<longrightarrow> scroll_speed (update r g) = scroll_speed g + difficulty_increment g) \<and>
   (\<not> playing g \<longrightarrow> update r g = g) \<and>
   ((KEYDOWN K_r \<notin> set evs \<or> (playing (game s) \<and> \<not> in_start s)) \<and>
    (in_start (fold handle_event evs s) \<or> paused (fold handle_event evs s) \<or>
     \<not> playing (game (fold handle_event evs s))) \<longrightarrow>
      scroll_speed (game (frame B evs r s)) = scroll_speed (game s)) \<and>
   (game_inv (game s) \<and> (KEYDOWN K_r \<notin> set evs \<or> (playing (game s) \<and> \<not> in_start s)) \<longrightarrow>
      scroll_speed (game s) \<le> scroll_speed (game (frame B evs r s))) \<and>
   game_inv (game (run B fs (main_init B f))) \<and>
   difficulty_increment (game (run B fs (main_init B f))) = 5 / 10000"
proof -
  have a: "playing g \<and> 0 \<le> difficulty_increment g \<longrightarrow> scroll_speed g \<le> scroll_speed (update r g)"
    by (simp add: update_speed_mono)
  have b: "playing g \<longrightarrow> scroll_speed (update r g) = scroll_speed g + difficulty_increment g"
    by (simp add: update_scroll_speed)
  have c: "\<not> playing g \<longrightarrow> update r g = g"
    by (simp add: update_def)
  have d: "(KEYDOWN K_r \<notin> set evs \<or> (playing (game s) \<and> \<not> in_start s)) \<and>
    (in_start (fold handle_event evs s) \<or> paused (fold handle_event evs s) \<or>
     \<not> playing (game (fold handle_event evs s))) \<longrightarrow>
      scroll_speed (game (frame B evs r s)) = scroll_speed (game s)"
    using events_speed [of evs s] events_playing [of s evs]
    by (auto simp add: frame_speed Let_def)
  have e: "game_inv (game s) \<and> (KEYDOWN K_r \<notin> set evs \<or> (playing (game s) \<and> \<not> in_start s)) \<longrightarrow>
      scroll_speed (game s) \<le> scroll_speed (game (frame B evs r s))"
    using events_speed [of evs s] events_playing [of s evs] frame_speed_mono [of s evs B r]
    by blast
  have f: "game_inv (game (run B fs (main_init B f)))"
    by (rule game_inv_reachable)
  have g: "difficulty_increment (game (run B fs (main_init B f))) = 5 / 10000"
    using f by (simp add: game_inv_def)
  show ?thesis
    using a b c d e f g by blast
qed

theorem C7_scroll_speed_monotone_witness:
  "playing demo_game \<and> scroll_speed demo_game = 6 \<and>
   scroll_speed (update demo_draws demo_game) = 12001 / 2000 \<and>
   scroll_speed demo_game \<le> scroll_speed (update demo_draws demo_game) \<and>
   \<not> playing (ended_game 20) \<and> update demo_draws (ended_game 20) = ended_game 20 \<and>
   scroll_speed (game (frame ascii_py [KEYDOWN K_p] demo_draws playing_loop)) = 6 \<and>
   scroll_speed (game (frame ascii_py [KEYDOWN K_q] demo_draws (ended_loop 20))) = 6 \<and>
   scroll_speed (game playing_loop) \<le>
     scroll_speed (game (frame ascii_py [KEYDOWN K_r] demo_draws playing_loop))"
proof -
  have p: "playing demo_game" "\<not> playing (ended_game 20)"
    "0 \<le> difficulty_increment demo_game"
    "scroll_speed demo_game = 6" "scroll_speed demo_game + difficulty_increment demo_game = 12001 / 2000"
    by code_simp+
  note t1 = C7_scroll_speed_monotone [of demo_game demo_draws "[KEYDOWN K_p]" playing_loop
      ascii_py "[]" demo_file]
  note t2 = C7_scroll_speed_monotone [of "ended_game 20" demo_draws "[KEYDOWN K_q]"
      "ended_loop 20" ascii_py "[]" demo_file]
  note t3 = C7_scroll_speed_monotone [of demo_game demo_draws "[KEYDOWN K_r]" playing_loop
      ascii_py "[]" demo_file]
  have a: "scroll_speed (update demo_draws demo_game) = 12001 / 2000"
    "scroll_speed demo_game \<le> scroll_speed (update demo_draws demo_game)"
    using t1 p by simp_all
  have b: "update demo_draws (ended_game 20) = ended_game 20"
    using t2 p by blast
  have h1: "KEYDOWN K_r \<notin> set [KEYDOWN K_p]" "paused (fold handle_event [KEYDOWN K_p] playing_loop)"
    "scroll_speed (game playing_loop) = 6"
    by code_simp+
  have c: "scroll_speed (game (frame ascii_py [KEYDOWN K_p] demo_draws playing_loop)) = 6"
    using t1 h1 by simp
  have h2: "KEYDOWN K_r \<notin> set [KEYDOWN K_q]"
    "\<not> playing (game (fold handle_event [KEYDOWN K_q] (ended_loop 20)))"
    "scroll_speed (game (ended_loop 20)) = 6"
    by code_simp+
  have d: "scroll_speed (game (frame ascii_py [KEYDOWN K_q] demo_draws (ended_loop 20))) = 6"
    using t2 h2 by simp
  have h3: "game_inv (game playing_loop)" "playing (game playing_loop)" "\<not> in_start playing_loop"
    by code_simp+
  have e: "scroll_speed (game playing_loop) \<le>
     scroll_speed (game (frame ascii_py [KEYDOWN K_r] demo_draws playing_loop))"
    using t3 h3 by blast
  show ?thesis
    using p a b c d e by blast
qed

subsection \<open>C9: the speed bonus\<close>

text \<open>
  Claim C9. The last statement of an update of the playing session adds to the score
  the quotient of the new scroll speed by 250, truncated to an integer. The bonus is 0
  when the speed is between -250 and 250; under the session invariant the speed is at
  least 6, so the bonus is 0 whenever the speed is below 250, and the invariant holds
  in every state that the program reaches.
\<close>

theorem C9_speed_bonus:
  assumes "playing g"
  shows "score (update r g) =
           score (before_bonus r g) + int_trunc (scroll_speed (update r g) / 250) \<and>
         scroll_speed (update r g) = scroll_speed g + difficulty_increment g \<and>
         (- 250 < scroll_speed (update r g) \<and> scroll_speed (update r g) < 250 \<longrightarrow>
            score (update r g) = score (before_bonus r g)) \<and>
         (game_inv g \<and> scroll_speed (update r g) < 250 \<longrightarrow>
            int_trunc (scroll_speed (update r g) / 250) = 0 \<and>
            score (update r g) = score (before_bonus r g)) \<and>
         game_inv (game (run B fs (main_init B f)))"
proof -
  have sp: "scroll_speed (before_bonus r g) = scroll_speed (update r g)"
    using assms by (simp add: update_def bonus_stage_frame)
  have a: "score (update r g) =
           score (before_bonus r g) + int_trunc (scroll_speed (update r g) / 250)"
    using assms by (simp add: sp [symmetric]) (simp add: update_def bonus_stage_def)
  have b: "scroll_speed (update r g) = scroll_speed g + difficulty_increment g"
    using assms by (rule update_scroll_speed)
  have c: "- 250 < scroll_speed (update r g) \<and> scroll_speed (update r g) < 250 \<longrightarrow>
            score (update r g) = score (before_bonus r g)"
    by (simp add: a int_trunc_small)
  have d: "game_inv g \<and> scroll_speed (update r g) < 250 \<longrightarrow>
            int_trunc (scroll_speed (update r g) / 250) = 0 \<and>
            score (update r g) = score (before_bonus r g)"
  proof
    assume h: "game_inv g \<and> scroll_speed (update r g) < 250"
    then have "game_inv (update r g)" by (simp add: game_inv_update)
    then have "- 250 < scroll_speed (update r g)" by (simp add: game_inv_def)
    then have "int_trunc (scroll_speed (update r g) / 250) = 0"
      using h by (simp add: int_trunc_small)
    then show "int_trunc (scroll_speed (update r g) / 250) = 0 \<and>
            score (update r g) = score (before_bonus r g)"
      by (simp add: a)
  qed
  have e: "game_inv (game (run B fs (main_init B f)))"
    by (rule game_inv_reachable)
  show ?thesis
    using a b c d e by blast
qed

theorem C9_speed_bonus_witness:
  "playing demo_game \<and> game_inv demo_game \<and>
   scroll_speed (update demo_draws demo_game) = 12001 / 2000 \<and>
   score (update demo_draws demo_game) = score (before_bonus demo_draws demo_game) \<and>
   playing rocket_game \<and>
   scroll_speed (update demo_draws rocket_game) = 1000001 / 2000 \<and>
   score (update demo_draws rocket_game) = score (before_bonus demo_draws rocket_game) + 2"
proof -
  have p: "playing demo_game" "game_inv demo_game" "playing rocket_game"
    by code_simp+
  have s: "scroll_speed demo_game + difficulty_increment demo_game = 12001 / 2000"
    "scroll_speed rocket_game + difficulty_increment rocket_game = 1000001 / 2000"
    "int_trunc (1000001 / 2000 / 250) = 2"
    by code_simp+
  note t1 = C9_speed_bonus [OF p(1), of demo_draws ascii_py "[]" demo_file]
  note t2 = C9_speed_bonus [OF p(3), of demo_draws ascii_py "[]" demo_file]
  have a: "scroll_speed (update demo_draws demo_game) = 12001 / 2000"
    using t1 s by simp
  have b: "score (update demo_draws demo_game) = score (before_bonus demo_draws demo_game)"
    using t1 p(2) a by simp
  have c: "scroll_speed (update demo_draws rocket_game) = 1000001 / 2000"
    using t2 s by simp
  have d: "score (update demo_draws rocket_game) =
      score (before_bonus demo_draws rocket_game) + 2"
    using t2 s(3) unfolding c by simp
  show ?thesis
    using p a b c d by blast
qed

section \<open>The game-over screen in the main loop\<close>

lemma handle_event_ended:
  "\<not> in_start s \<and> \<not> playing (game s) \<and> game_over (game s) \<Longrightarrow> e \<noteq> KEYDOWN K_r \<Longrightarrow>
   \<not> in_start (handle_event e s) \<and> \<not> playing (game (handle_event e s)) \<and>
   game_over (game (handle_event e s)) \<and>
   score (game (handle_event e s)) = score (game s) \<and>
   highscore (game (handle_event e s)) = highscore (game s)"
  by (cases e) auto

lemma events_ended:
  "\<not> in_start s \<and> \<not> playing (game s) \<and> game_over (game s) \<Longrightarrow> KEYDOWN K_r \<notin> set evs \<Longrightarrow>
   \<not> in_start (fold handle_event evs s) \<and> \<not> playing (game (fold handle_event evs s)) \<and>
   game_over (game (fold handle_event evs s)) \<and>
   score (game (fold handle_event evs s)) = score (game s) \<and>
   highscore (game (fold handle_event evs s)) = highscore (game s)"
proof (induction evs arbitrary: s)
  case Nil
  then show ?case by simp
next
  case (Cons e evs)
  have e: "e \<noteq> KEYDOWN K_r" and r: "KEYDOWN K_r \<notin> set evs"
    using Cons.prems(2) by auto
  note h = handle_event_ended [OF Cons.prems(1) e]
  have "\<not> in_start (handle_event e s) \<and> \<not> playing (game (handle_event e s)) \<and>
      game_over (game (handle_event e s))"
    using h by blast
  from Cons.IH [OF this r] h show ?case by simp
qed

lemma frame_after_game_over:
  "\<not> in_start (frame B evs r s) \<and> \<not> paused (frame B evs r s) \<and>
   game_over (game (frame B evs r s)) \<longrightarrow>
     score (game (frame B evs r s)) \<le> highscore (game (frame B evs r s))"
  by (auto simp add: frame_modes frame_game Let_def game_over_screen_def)

subsection \<open>C8: the high score file\<close>

text \<open>
  Claim C8. The game-over screen replaces the high score and saves the score exactly
  when the score is greater than the high score of the session (the value read at the
  start, or a record saved since); on a tie or a lower score it changes nothing. A
  save that succeeds makes the file hold the score; one that fails is swallowed. A
  second call of the screen changes nothing. In the main loop, a frame writes the file
  only if it reaches the game-over screen with a score above the high score; once a
  frame has shown the screen the score is not above the high score, and then the frames
  of the ended session, without the restart key, leave the file alone. Reading the file
  gives 0 when it cannot be read, when its stripped text is empty and when the text is
  not a number, and the number otherwise; the session starts with the value read.
\<close>

theorem C8_highscore_file:
  "(highscore g < score g \<longrightarrow>
      game_over_screen B g f = (g\<lparr>highscore := score g\<rparr>, save_highscore B (score g) f)) \<and>
   (score g \<le> highscore g \<longrightarrow> game_over_screen B g f = (g, f)) \<and>
   (highscore g < score g \<and> writable f \<longrightarrow>
      content (snd (game_over_screen B g f)) = Some (py_str B (score g)) \<and>
      writes (snd (game_over_screen B g f)) = writes f @ [py_str B (score g)]) \<and>
   (\<not> writable f \<longrightarrow> snd (game_over_screen B g f) = f) \<and>
   game_over_screen B (fst (game_over_screen B g f)) (snd (game_over_screen B g f)) =
     game_over_screen B g f \<and>
   store (frame B evs r s) =
     (let s1 = fold handle_event evs s;
          g1 = (if playing (game s1) then update r (game s1) else game s1)
      in if \<not> in_start s1 \<and> \<not> paused s1 \<and> game_over g1 \<and> highscore g1 < score g1
         then save_highscore B (score g1) (store s) else store s) \<and>
   (\<not> in_start (frame B evs r s) \<and> \<not> paused (frame B evs r s) \<and>
    game_over (game (frame B evs r s)) \<longrightarrow>
      score (game (frame B evs r s)) \<le> highscore (game (frame B evs r s))) \<and>
   (\<not> in_start s \<and> \<not> playing (game s) \<and> game_over (game s) \<and>
    score (game s) \<le> highscore (game s) \<and> KEYDOWN K_r \<notin> set evs \<longrightarrow>
      store (frame B evs r s) = store s) \<and>
   (content f = None \<longrightarrow> load_highscore B f = 0) \<and>
   (content f = Some txt \<and> py_strip B txt = [] \<longrightarrow> load_highscore B f = 0) \<and>
   (content f = Some txt \<and> py_int B (py_strip B txt) = None \<longrightarrow> load_highscore B f = 0) \<and>
   (content f = Some txt \<and> py_strip B txt \<noteq> [] \<and> py_int B (py_strip B txt) = Some n \<longrightarrow>
      load_highscore B f = n) \<and>
   highscore (ItrikSurfers_init B f) = load_highscore B f"
proof -
  have a: "highscore g < score g \<longrightarrow>
      game_over_screen B g f = (g\<lparr>highscore := score g\<rparr>, save_highscore B (score g) f)"
    by (simp add: game_over_screen_def)
  have b: "score g \<le> highscore g \<longrightarrow> game_over_screen B g f = (g, f)"
    by (simp add: game_over_screen_def)
  have c: "highscore g < score g \<and> writable f \<longrightarrow>
      content (snd (game_over_screen B g f)) = Some (py_str B (score g)) \<and>
      writes (snd (game_over_screen B g f)) = writes f @ [py_str B (score g)]"
    by (simp add: game_over_screen_def save_highscore_def)
  have d: "\<not> writable f \<longrightarrow> snd (game_over_screen B g f) = f"
    by (simp add: game_over_screen_def save_highscore_def)
  have e: "game_over_screen B (fst (game_over_screen B g f)) (snd (game_over_screen B g f)) =
     game_over_screen B g f"
    by (simp add: game_over_screen_def)
  have h: "\<not> in_start s \<and> \<not> playing (game s) \<and> game_over (game s) \<and>
    score (game s) \<le> highscore (game s) \<and> KEYDOWN K_r \<notin> set evs \<longrightarrow>
      store (frame B evs r s) = store s"
  proof
    assume p: "\<not> in_start s \<and> \<not> playing (game s) \<and> game_over (game s) \<and>
      score (game s) \<le> highscore (game s) \<and> KEYDOWN K_r \<notin> set evs"
    then have "\<not> in_start s \<and> \<not> playing (game s) \<and> game_over (game s)"
      and "KEYDOWN K_r \<notin> set evs"
      by blast+
    from events_ended [OF this] p show "store (frame B evs r s) = store s"
      by (simp add: frame_store Let_def)
  qed
  have l1: "content f = None \<longrightarrow> load_highscore B f = 0"
    by (simp add: load_highscore_def)
  have l2: "content f = Some txt \<and> py_strip B txt = [] \<longrightarrow> load_highscore B f = 0"
    by (simp add: load_highscore_def)
  have l3: "content f = Some txt \<and> py_int B (py_strip B txt) = None \<longrightarrow> load_highscore B f = 0"
    by (simp add: load_highscore_def Let_def)
  have l4: "content f = Some txt \<and> py_strip B txt \<noteq> [] \<and> py_int B (py_strip B txt) = Some n \<longrightarrow>
      load_highscore B f = n"
    by (simp add: load_highscore_def Let_def)
  have i: "highscore (ItrikSurfers_init B f) = load_highscore B f"
    by (simp add: ItrikSurfers_init_def)
  show ?thesis
    using a b c d e frame_store [of B evs r s] frame_after_game_over [of B evs r s] h l1 l2 l3 l4 i
    by blast
qed

theorem C8_highscore_file_witness:
  "highscore (ended_game 20) = 12 \<and> score (ended_game 20) = 20 \<and> writable demo_file \<and>
   content (snd (game_over_screen ascii_py (ended_game 20) demo_file)) = Some ''20'' \<and>
   writes (snd (game_over_screen ascii_py (ended_game 20) demo_file)) = [''20''] \<and>
   game_over_screen ascii_py (ended_game 12) demo_file = (ended_game 12, demo_file) \<and>
   game_over_screen ascii_py (ended_game 5) demo_file = (ended_game 5, demo_file) \<and>
   store (frame ascii_py [KEYDOWN K_SPACE] demo_draws (ended_loop 12)) = demo_file \<and>
   load_highscore ascii_py (file_with None) = 0 \<and>
   load_highscore ascii_py (file_with (Some [])) = 0 \<and>
   load_highscore ascii_py (file_with (Some '' ''))  = 0 \<and>
   load_highscore ascii_py (file_with (Some ''12a'')) = 0 \<and>
   load_highscore ascii_py (file_with (Some '' 12 '')) = 12"
proof -
  have g: "highscore (ended_game 20) = 12" "score (ended_game 20) = 20" "writable demo_file"
    "writes demo_file = []" "py_str ascii_py 20 = ''20''"
    "highscore (ended_game 12) = 12" "score (ended_game 12) = 12"
    "highscore (ended_game 5) = 12" "score (ended_game 5) = 5"
    by code_simp+
  note t20 = C8_highscore_file [of "ended_game 20" ascii_py demo_file "[]" demo_draws
      "ended_loop 12" "[]" 0]
  note t12 = C8_highscore_file [of "ended_game 12" ascii_py demo_file "[KEYDOWN K_SPACE]" demo_draws
      "ended_loop 12" "[]" 0]
  note t5 = C8_highscore_file [of "ended_game 5" ascii_py demo_file "[]" demo_draws
      "ended_loop 12" "[]" 0]
  have lt: "highscore (ended_game 20) < score (ended_game 20)" "writable demo_file"
    "score (ended_game 12) \<le> highscore (ended_game 12)"
    "score (ended_game 5) \<le> highscore (ended_game 5)"
    by code_simp+
  have a0: "content (snd (game_over_screen ascii_py (ended_game 20) demo_file)) =
        Some (py_str ascii_py (score (ended_game 20))) \<and>
      writes (snd (game_over_screen ascii_py (ended_game 20) demo_file)) =
        writes demo_file @ [py_str ascii_py (score (ended_game 20))]"
    using t20 lt(1,2) by blast
  have a: "content (snd (game_over_screen ascii_py (ended_game 20) demo_file)) = Some ''20'' \<and>
      writes (snd (game_over_screen ascii_py (ended_game 20) demo_file)) = [''20'']"
    using a0 by (simp add: g)
  have b: "game_over_screen ascii_py (ended_game 12) demo_file = (ended_game 12, demo_file)"
    using t12 lt(3) by blast
  have c: "game_over_screen ascii_py (ended_game 5) demo_file = (ended_game 5, demo_file)"
    using t5 lt(4) by blast
  have e: "\<not> in_start (ended_loop 12)" "\<not> playing (game (ended_loop 12))"
    "game_over (game (ended_loop 12))" "score (game (ended_loop 12)) \<le> highscore (game (ended_loop 12))"
    "KEYDOWN K_r \<notin> set [KEYDOWN K_SPACE]" "store (ended_loop 12) = demo_file"
    by code_simp+
  have d0: "store (frame ascii_py [KEYDOWN K_SPACE] demo_draws (ended_loop 12)) =
      store (ended_loop 12)"
    using t12 e(1-5) by blast
  have d: "store (frame ascii_py [KEYDOWN K_SPACE] demo_draws (ended_loop 12)) = demo_file"
    using d0 by (simp add: e(6))
  have f0: "content (file_with None) = None" by code_simp
  have l0: "load_highscore ascii_py (file_with None) = 0"
    using C8_highscore_file [of demo_game ascii_py "file_with None" "[]" demo_draws
        "ended_loop 12" "[]" 0] f0
    by blast
  have f1: "content (file_with (Some [])) = Some [] \<and> py_strip ascii_py [] = []" by code_simp
  have l1: "load_highscore ascii_py (file_with (Some [])) = 0"
    using C8_highscore_file [of demo_game ascii_py "file_with (Some [])" "[]" demo_draws
        "ended_loop 12" "[]" 0] f1
    by blast
  have f2: "content (file_with (Some '' '')) = Some '' '' \<and> py_strip ascii_py '' '' = []"
    by code_simp
  have l2: "load_highscore ascii_py (file_with (Some '' '')) = 0"
    using C8_highscore_file [of demo_game ascii_py "file_with (Some '' '')" "[]" demo_draws
        "ended_loop 12" "'' ''" 0] f2
    by blast
  have f3: "content (file_with (Some ''12a'')) = Some ''12a'' \<and>
      py_int ascii_py (py_strip ascii_py ''12a'') = None"
    by code_simp
  have l3: "load_highscore ascii_py (file_with (Some ''12a'')) = 0"
    using C8_highscore_file [of demo_game ascii_py "file_with (Some ''12a'')" "[]" demo_draws
        "ended_loop 12" "''12a''" 0] f3
    by blast
  have f4: "content (file_with (Some '' 12 '')) = Some '' 12 '' \<and>
      py_strip ascii_py '' 12 '' \<noteq> [] \<and> py_int ascii_py (py_strip ascii_py '' 12 '') = Some 12"
    by code_simp
  have l4: "load_highscore ascii_py (file_with (Some '' 12 '')) = 12"
    using C8_highscore_file [of demo_game ascii_py "file_with (Some '' 12 '')" "[]" demo_draws
        "ended_loop 12" "'' 12 ''" 12] f4
    by blast
  show ?thesis
    using g(1,2,3) a b c d l0 l1 l2 l3 l4 by blast
qed

end
